theory Spec2Isabelle
  imports Main "HOL-Library.Sublist"
begin

section \<open>The scaffold generator \<^verbatim>\<open>check.py\<close>\<close>

text \<open>
  The program builds a dictionary from relative paths to file contents when its module is
  loaded, and its \<^verbatim>\<open>main\<close> writes every entry below a root directory and marks a fixed
  list of files executable.

  Conventions of the embedding.
  \<^item> A Python \<^verbatim>\<open>str\<close> is a \<^typ>\<open>string\<close> holding the UTF-8 encoding of the text,
    the encoding \<^verbatim>\<open>write_text\<close> is called with. Every character of the tables is ASCII
    but one, U+274C in \<^verbatim>\<open>.githooks/commit-msg\<close>, which is the three bytes E2 9D 8C.
  \<^item> A Python \<^verbatim>\<open>dict\<close> is the list of its items in insertion order.
  \<^item> The host is a POSIX system: paths are lists of components below \<^verbatim>\<open>/\<close>, and text
    written to a file is stored as it is (no newline translation).
  \<^item> The file system is explicit state; every function that touches it takes the state
    and returns the exception it raised, if any, with the new state.
\<close>

subsection \<open>Dictionaries\<close>

text \<open>
  \<^verbatim>\<open>d[k] = v\<close>: a key that is present keeps its place and takes the new value, a new key
  goes to the end.
\<close>

fun dict_setitem :: "('k \<times> 'v) list \<Rightarrow> 'k \<Rightarrow> 'v \<Rightarrow> ('k \<times> 'v) list" where
  "dict_setitem [] k v = [(k, v)]"
| "dict_setitem ((k', v') # d) k v =
     (if k' = k then (k', v) # d else (k', v') # dict_setitem d k v)"

text \<open>A dictionary display \<^verbatim>\<open>{k1: v1, k2: v2, ...}\<close> inserts its pairs from left to right.\<close>

definition dict_display :: "('k \<times> 'v) list \<Rightarrow> ('k \<times> 'v) list" where
  "dict_display kvs = fold (\<lambda>(k, v) d. dict_setitem d k v) kvs []"

text \<open>
  The module inserts into \<^verbatim>\<open>REPO_STRUCTURE\<close> by subscript assignment and by
  \<^verbatim>\<open>update\<close>. Its body is written once, over the insertion operation \<open>setitem\<close>, so
  that the same text runs on a dictionary (\<open>dict_setitem\<close>) and on a log that records
  every insertion in order (\<open>log_setitem\<close>).
\<close>

definition dict_update :: "('d \<Rightarrow> 'k \<Rightarrow> 'v \<Rightarrow> 'd) \<Rightarrow> 'd \<Rightarrow> ('k \<times> 'v) list \<Rightarrow> 'd" where
  "dict_update setitem d other = fold (\<lambda>(k, v) d. setitem d k v) other d"

definition log_setitem :: "('k \<times> 'v) list \<Rightarrow> 'k \<Rightarrow> 'v \<Rightarrow> ('k \<times> 'v) list" where
  "log_setitem l k v = l @ [(k, v)]"

subsection \<open>The structure table\<close>

text \<open>The literal data of the module, in source order.\<close>

definition literal_entries :: "(string \<times> string) list" where
  \<comment> \<open>lines 19-150\<close>
  \<open>literal_entries =
    [(''README.md'', ''# ASV\<newline>\<newline>Monorepo scaffold.\<newline>''),
     (''LICENSE'', ''TODO: rAdd license text.\<newline>''),
     (''.env.example'', ''# Example env\<newline>''),
     (''.editorconfig'', ''root = true\<newline>\<newline>[*]\<newline>end_of_line = lf\<newline>insert_final_newline = true\<newline>charset = utf-8\<newline>''),
     (''.gitignore'', ''.env\<newline>.DS_Store\<newline>__pycache__/\<newline>*.pyc\<newline>node_modules/\<newline>build/\<newline>dist/\<newline>.ml_data/\<newline>''),
     (''docker-compose.yml'', ''version: '' @ [CHR 0x27] @ ''3.9'' @ [CHR 0x27] @ ''\<newline>services: {}\<newline>''),
     (''Makefile'', ''help:\<newline>'' @ [CHR 0x09] @ ''@echo "ASV repo scaffold"\<newline>''),
     (''CHANGELOG.md'', ''# Changelog\<newline>\<newline>''),
     (''SECURITY.md'', ''# Security\<newline>\<newline>Report issues responsibly.\<newline>''),
     (''.github/workflows/ci.yml'', ''name: ci\<newline>on: [push, pull_request]\<newline>jobs: {}\<newline>''),
     (''.github/workflows/lint.yml'', ''name: lint\<newline>on: [push, pull_request]\<newline>jobs: {}\<newline>''),
     (''.github/workflows/tests.yml'', ''name: tests\<newline>on: [push, pull_request]\<newline>jobs: {}\<newline>''),
     (''.github/workflows/security-scan.yml'', ''name: security-scan\<newline>on: [push, pull_request]\<newline>jobs: {}\<newline>''),
     (''.github/workflows/release.yml'', ''name: release\<newline>on:\<newline>  push:\<newline>    tags:\<newline>      - '' @ [CHR 0x27] @ ''v*'' @ [CHR 0x27] @ ''\<newline>jobs: {}\<newline>''),
     (''.github/CODEOWNERS'', ''* @CapstoneTeam\<newline>''),
     (''.github/PULL_REQUEST_TEMPLATE.md'', ''## Summary\<newline>\<newline>## Testing\<newline>\<newline>## Screenshots/Logs\<newline>\<newline>''),
     (''.githooks/commit-msg'', ''#!/usr/bin/env bash\<newline>set -euo pipefail\<newline>\<newline>msg_file="$1"\<newline>subject="$(head -n1 "$msg_file")"\<newline>\<newline># Example: feat(flutter): add vehicle mode toggle @anmol\<newline>pattern='' @ [CHR 0x27] @ ''^(feat|fix|perf|refactor|test|docs|style|chore|build|ci|revert)('' @ [CHR 0x5C] @ ''([a-z0-9_-]+'' @ [CHR 0x5C] @ ''))?: .+ @[a-z0-9_]+$'' @ [CHR 0x27] @ ''\<newline>\<newline>if ! [[ "$subject" =~ $pattern ]]; then\<newline>  echo "'' @ [CHR 0xE2, CHR 0x9D, CHR 0x8C] @ '' Invalid commit message."\<newline>  echo "Use: type(scope): message @name"\<newline>  echo "Example: feat(flutter): add vehicle mode toggle @anmol"\<newline>  echo "Allowed types: feat fix perf refactor test docs style chore build ci revert"\<newline>  exit 1\<newline>fi\<newline>''),
     (''.githooks/pre-commit'', ''#!/usr/bin/env bash\<newline># optional: run formatter/lint\<newline>exit 0\<newline>''),
     (''.githooks/pre-push'', ''#!/usr/bin/env bash\<newline># optional: quick test gate\<newline>exit 0\<newline>''),
     (''docs/architecture/overview.md'', ''# Architecture Overview\<newline>''),
     (''docs/architecture/dataflow.md'', ''# Dataflow\<newline>''),
     (''docs/architecture/interfaces.md'', ''# Interfaces\<newline>''),
     (''docs/architecture/state_machines.md'', ''# State Machines\<newline>''),
     (''docs/architecture/failure_modes.md'', ''# Failure Modes\<newline>''),
     (''docs/architecture/threat_model.md'', ''# Threat Model\<newline>''),
     (''docs/safety/estop.md'', ''# E-Stop\<newline>''),
     (''docs/safety/safe_stop_policy.md'', ''# Safe Stop Policy\<newline>''),
     (''docs/safety/override_policy.md'', ''# Override Policy\<newline>''),
     (''docs/safety/privacy_policy.md'', ''# Privacy Policy\<newline>''),
     (''docs/safety/retention_policy.md'', ''# Retention Policy\<newline>''),
     (''docs/runbooks/onboarding.md'', ''# Onboarding\<newline>''),
     (''docs/runbooks/local_dev.md'', ''# Local Development\<newline>''),
     (''docs/runbooks/staging_deploy.md'', ''# Staging Deploy\<newline>''),
     (''docs/runbooks/vehicle_bringup.md'', ''# Vehicle Bring-up\<newline>''),
     (''docs/runbooks/incident_response.md'', ''# Incident Response\<newline>''),
     (''docs/api/openapi.md'', ''# OpenAPI\<newline>''),
     (''docs/api/websocket_events.md'', ''# Websocket Events\<newline>''),
     (''docs/api/command_contracts.md'', ''# Command Contracts\<newline>''),
     (''schemas/README.md'', ''# Schemas\<newline>\<newline>Single source of truth.\<newline>''),
     (''schemas/openapi/openapi.yaml'', ''openapi: 3.0.3\<newline>info:\<newline>  title: ASV API\<newline>  version: 0.1.0\<newline>paths: {}\<newline>''),
     (''schemas/proto/telemetry.proto'', ''syntax = "proto3";\<newline>package asv;\<newline>''),
     (''schemas/proto/commands.proto'', ''syntax = "proto3";\<newline>package asv;\<newline>''),
     (''schemas/proto/incidents.proto'', ''syntax = "proto3";\<newline>package asv;\<newline>''),
     (''schemas/proto/auth.proto'', ''syntax = "proto3";\<newline>package asv;\<newline>''),
     (''schemas/jsonschema/Telemetry.json'', ''{\<newline>  "$schema": "http://json-schema.org/draft-07/schema#",\<newline>  "title": "Telemetry",\<newline>  "type": "object"\<newline>}\<newline>''),
     (''schemas/jsonschema/VehicleState.json'', ''{\<newline>  "$schema": "http://json-schema.org/draft-07/schema#",\<newline>  "title": "VehicleState",\<newline>  "type": "object"\<newline>}\<newline>''),
     (''schemas/jsonschema/CommandRequest.json'', ''{\<newline>  "$schema": "http://json-schema.org/draft-07/schema#",\<newline>  "title": "CommandRequest",\<newline>  "type": "object"\<newline>}\<newline>''),
     (''schemas/jsonschema/CommandResult.json'', ''{\<newline>  "$schema": "http://json-schema.org/draft-07/schema#",\<newline>  "title": "CommandResult",\<newline>  "type": "object"\<newline>}\<newline>''),
     (''schemas/jsonschema/OverrideToken.json'', ''{\<newline>  "$schema": "http://json-schema.org/draft-07/schema#",\<newline>  "title": "OverrideToken",\<newline>  "type": "object"\<newline>}\<newline>''),
     (''schemas/jsonschema/Incident.json'', ''{\<newline>  "$schema": "http://json-schema.org/draft-07/schema#",\<newline>  "title": "Incident",\<newline>  "type": "object"\<newline>}\<newline>''),
     (''schemas/jsonschema/Alert.json'', ''{\<newline>  "$schema": "http://json-schema.org/draft-07/schema#",\<newline>  "title": "Alert",\<newline>  "type": "object"\<newline>}\<newline>''),
     (''schemas/jsonschema/AuditEvent.json'', ''{\<newline>  "$schema": "http://json-schema.org/draft-07/schema#",\<newline>  "title": "AuditEvent",\<newline>  "type": "object"\<newline>}\<newline>''),
     (''schemas/jsonschema/ConfigBundle.json'', ''{\<newline>  "$schema": "http://json-schema.org/draft-07/schema#",\<newline>  "title": "ConfigBundle",\<newline>  "type": "object"\<newline>}\<newline>''),
     (''infra/codeserver/Dockerfile'', ''FROM codercom/code-server:latest\<newline>''),
     (''infra/codeserver/docker-compose.yml'', ''version: '' @ [CHR 0x27] @ ''3.9'' @ [CHR 0x27] @ ''\<newline>services: {}\<newline>''),
     (''infra/codeserver/entrypoint.sh'', ''#!/usr/bin/env bash\<newline>set -e\<newline>exec "$@"\<newline>''),
     (''infra/codeserver/init-repo.sh'', ''#!/usr/bin/env bash\<newline>set -e\<newline># clone repo / set hooks / install deps\<newline>''),
     (''infra/codeserver/README.md'', ''# CodeServer\<newline>''),
     (''infra/docker/vehicle.Dockerfile'', ''FROM ubuntu:24.04\<newline>''),
     (''infra/docker/backend.Dockerfile'', ''FROM node:20\<newline>''),
     (''infra/docker/sim.Dockerfile'', ''FROM ubuntu:24.04\<newline>''),
     (''infra/docker/ml.Dockerfile'', ''FROM python:3.11\<newline>''),
     (''infra/monitoring/prometheus.yml'', ''global:\<newline>  scrape_interval: 15s\<newline>scrape_configs: []\<newline>''),
     (''infra/monitoring/grafana/README.md'', ''# Grafana configs\<newline>''),
     (''infra/monitoring/dashboards/README.md'', ''# Dashboards\<newline>''),
     (''infra/k8s/README.md'', ''# K8s manifests\<newline>''),
     (''infra/k8s/namespaces/README.md'', ''# namespaces\<newline>''),
     (''infra/k8s/backend/README.md'', ''# backend\<newline>''),
     (''infra/k8s/monitoring/README.md'', ''# monitoring\<newline>''),
     (''infra/k8s/ingress/README.md'', ''# ingress\<newline>''),
     (''infra/terraform/README.md'', ''# Terraform\<newline>''),
     (''infra/terraform/modules/README.md'', ''# modules\<newline>''),
     (''infra/terraform/envs/README.md'', ''# envs\<newline>''),
     (''vehicle/README.md'', ''# Vehicle\<newline>''),
     (''vehicle/config/vehicle.yaml'', ''vehicle:\<newline>  name: asv\<newline>''),
     (''vehicle/config/sensors.yaml'', ''sensors: {}\<newline>''),
     (''vehicle/config/zones.yaml'', ''zones: []\<newline>''),
     (''vehicle/config/rules.yaml'', ''rules: []\<newline>''),
     (''vehicle/config/privacy.yaml'', ''privacy:\<newline>  face_blur_default: true\<newline>''),
     (''vehicle/config/logging.yaml'', ''logging:\<newline>  level: INFO\<newline>''),
     (''vehicle/config/model_manifest.yaml'', ''models: {}\<newline>''),
     (''vehicle/launch/bringup.launch.py'', ''# bringup launch\<newline>''),
     (''vehicle/launch/autonomy.launch.py'', ''# autonomy launch\<newline>''),
     (''vehicle/launch/teleop.launch.py'', ''# teleop launch\<newline>''),
     (''vehicle/launch/sim_bridge.launch.py'', ''# sim bridge launch\<newline>''),
     (''vehicle/scripts/run_vehicle.sh'', ''#!/usr/bin/env bash\<newline>set -e\<newline>''),
     (''vehicle/scripts/record_bag.sh'', ''#!/usr/bin/env bash\<newline>set -e\<newline>''),
     (''vehicle/scripts/replay_bag.sh'', ''#!/usr/bin/env bash\<newline>set -e\<newline>''),
     (''vehicle/scripts/health_check.sh'', ''#!/usr/bin/env bash\<newline>set -e\<newline>''),
     (''vehicle/scripts/update_models.sh'', ''#!/usr/bin/env bash\<newline>set -e\<newline>''),
     (''backend/README.md'', ''# Backend\<newline>''),
     (''backend/libs/common/config.ts'', ''export const config = {};\<newline>''),
     (''backend/libs/common/logger.ts'', ''export const logger = console;\<newline>''),
     (''backend/libs/common/errors.ts'', ''export class AppError extends Error {}\<newline>''),
     (''backend/libs/common/validation.ts'', ''export const validate = () => true;\<newline>''),
     (''backend/libs/schemas/README.md'', ''# Generated schema types\<newline>''),
     (''backend/db/schema.sql'', ''-- schema\<newline>''),
     (''backend/db/migrations/README.md'', ''# migrations\<newline>''),
     (''backend/db/seed/README.md'', ''# seed\<newline>'')]\<close>

definition SERVICE_NAMES :: "string list" where
  \<comment> \<open>lines 153-156\<close>
  \<open>SERVICE_NAMES =
    [''gateway'',
     ''auth'',
     ''fleet'',
     ''telemetry'',
     ''realtime'',
     ''commands'',
     ''approvals'',
     ''incidents'',
     ''alerting'',
     ''audit'',
     ''policy'',
     ''video'',
     ''config_rollout'']\<close>

definition flutter_entries :: "(string \<times> string) list" where
  \<comment> \<open>lines 162-176\<close>
  \<open>flutter_entries =
    [(''apps/operator_flutter/README.md'', ''# Operator Flutter App\<newline>''),
     (''apps/operator_flutter/pubspec.yaml'', ''name: operator_flutter\<newline>version: 0.1.0\<newline>''),
     (''apps/operator_flutter/analysis_options.yaml'', ''include: package:flutter_lints/flutter.yaml\<newline>''),
     (''apps/operator_flutter/lib/main.dart'', ''void main() {}\<newline>''),
     (''apps/operator_flutter/lib/app.dart'', ''// app entry\<newline>''),
     (''apps/operator_flutter/lib/core/config.dart'', ''// config\<newline>''),
     (''apps/operator_flutter/lib/core/auth/README.md'', ''# auth\<newline>''),
     (''apps/operator_flutter/lib/core/networking/README.md'', ''# networking\<newline>''),
     (''apps/operator_flutter/lib/core/realtime/README.md'', ''# realtime\<newline>''),
     (''apps/operator_flutter/lib/core/storage/README.md'', ''# storage\<newline>''),
     (''apps/operator_flutter/lib/core/logging/README.md'', ''# logging\<newline>''),
     (''apps/operator_flutter/lib/models/README.md'', ''# models\<newline>''),
     (''apps/operator_flutter/lib/shared_ui/README.md'', ''# shared UI\<newline>'')]\<close>

definition FLUTTER_FEATURES :: "string list" where
  \<comment> \<open>lines 177-177\<close>
  \<open>FLUTTER_FEATURES =
    [''login'',
     ''vehicles'',
     ''live_map'',
     ''video'',
     ''incidents'',
     ''alerts'',
     ''controls'',
     ''approvals'',
     ''safety'',
     ''settings'']\<close>

definition ml_entries :: "(string \<times> string) list" where
  \<comment> \<open>lines 183-206\<close>
  \<open>ml_entries =
    [(''ml/README.md'', ''# ML\<newline>''),
     (''ml/registry/manifests/README.md'', ''# manifests\<newline>''),
     (''ml/registry/model_cards/README.md'', ''# model cards\<newline>''),
     (''ml/registry/checksums/README.md'', ''# checksums\<newline>''),
     (''ml/inference/runtimes/onnxruntime/README.md'', ''# onnxruntime runtime\<newline>''),
     (''ml/inference/runtimes/tensorrt/README.md'', ''# tensorrt runtime\<newline>''),
     (''ml/inference/postprocess/README.md'', ''# postprocess\<newline>''),
     (''ml/inference/calibration/README.md'', ''# calibration\<newline>''),
     (''ml/inference/bench/README.md'', ''# bench\<newline>''),
     (''ml/training/pipelines/README.md'', ''# pipelines\<newline>''),
     (''ml/training/configs/README.md'', ''# configs\<newline>''),
     (''ml/training/augmentation/README.md'', ''# augmentation\<newline>''),
     (''ml/training/evaluation/README.md'', ''# evaluation\<newline>''),
     (''ml/training/exports/README.md'', ''# exports\<newline>''),
     (''ml/data/raw/.gitkeep'', ''''),
     (''ml/data/interim/.gitkeep'', ''''),
     (''ml/data/processed/.gitkeep'', ''''),
     (''ml/data/labels/.gitkeep'', ''''),
     (''ml/data/datasheets/README.md'', ''# datasheets\<newline>''),
     (''ml/tools/export_model.py'', ''# export model\<newline>''),
     (''ml/tools/dataset_qc.py'', ''# dataset qc\<newline>''),
     (''ml/tools/generate_model_card.py'', ''# model card generator\<newline>'')]\<close>

definition ML_MODELS :: "string list" where
  \<comment> \<open>lines 207-207\<close>
  \<open>ML_MODELS =
    [''object_detection'',
     ''behavior_detection'',
     ''alpr'',
     ''face_blur'']\<close>

definition simulation_entries :: "(string \<times> string) list" where
  \<comment> \<open>lines 212-227\<close>
  \<open>simulation_entries =
    [(''simulation/README.md'', ''# Simulation\<newline>''),
     (''simulation/world/README.md'', ''# world\<newline>''),
     (''simulation/vehicle_model/README.md'', ''# vehicle model\<newline>''),
     (''simulation/sensors/README.md'', ''# sensors\<newline>''),
     (''simulation/scenarios/intrusion.yaml'', ''scenario: intrusion\<newline>''),
     (''simulation/scenarios/loitering.yaml'', ''scenario: loitering\<newline>''),
     (''simulation/scenarios/tailing.yaml'', ''scenario: tailing\<newline>''),
     (''simulation/scenarios/crowd_event.yaml'', ''scenario: crowd_event\<newline>''),
     (''simulation/replay/align_timeline.py'', ''# align timeline\<newline>''),
     (''simulation/replay/render_overlays.py'', ''# render overlays\<newline>''),
     (''simulation/replay/export_report.py'', ''# export report\<newline>''),
     (''simulation/evaluation/metrics.py'', ''# metrics\<newline>''),
     (''simulation/evaluation/regressions.py'', ''# regressions\<newline>''),
     (''simulation/evaluation/reports/README.md'', ''# reports\<newline>'')]\<close>

definition tools_entries :: "(string \<times> string) list" where
  \<comment> \<open>lines 230-247\<close>
  \<open>tools_entries =
    [(''tools/dev/setup-hooks.sh'', ''#!/usr/bin/env bash\<newline>set -e\<newline>git config core.hooksPath .githooks\<newline>chmod +x .githooks/commit-msg\<newline>''),
     (''tools/dev/setup-codeserver.sh'', ''#!/usr/bin/env bash\<newline>set -e\<newline># codeserver setup\<newline>''),
     (''tools/dev/format.sh'', ''#!/usr/bin/env bash\<newline>set -e\<newline># run formatters\<newline>''),
     (''tools/dev/generate-clients.sh'', ''#!/usr/bin/env bash\<newline>set -e\<newline># generate api clients\<newline>''),
     (''tools/git/_commit_tag.sh'', ''#!/usr/bin/env bash\<newline>set -e\<newline># commit helper\<newline>''),
     (''tools/git/anmol'', ''#!/usr/bin/env bash\<newline>set -e\<newline>DIR="$(cd "$(dirname "$0")" && pwd)"\<newline>"$DIR/_commit_tag.sh" anmol "$@"\<newline>''),
     (''tools/git/jaspinder'', ''#!/usr/bin/env bash\<newline>set -e\<newline>DIR="$(cd "$(dirname "$0")" && pwd)"\<newline>"$DIR/_commit_tag.sh" jaspinder "$@"\<newline>''),
     (''tools/git/chris'', ''#!/usr/bin/env bash\<newline>set -e\<newline>DIR="$(cd "$(dirname "$0")" && pwd)"\<newline>"$DIR/_commit_tag.sh" chris "$@"\<newline>''),
     (''tools/git/prabh'', ''#!/usr/bin/env bash\<newline>set -e\<newline>DIR="$(cd "$(dirname "$0")" && pwd)"\<newline>"$DIR/_commit_tag.sh" prabh "$@"\<newline>''),
     (''tools/logs/parse.py'', ''# parse logs\<newline>''),
     (''tools/logs/align.py'', ''# align logs\<newline>''),
     (''tools/logs/export_incident_report.py'', ''# export incident report\<newline>''),
     (''tools/logs/redact_video.py'', ''# redact video\<newline>''),
     (''tools/calibration/README.md'', ''# calibration tools\<newline>''),
     (''tools/dataset/README.md'', ''# dataset tools\<newline>''),
     (''tools/labeling/README.md'', ''# labeling tools\<newline>'')]\<close>

definition tests_entries :: "(string \<times> string) list" where
  \<comment> \<open>lines 250-255\<close>
  \<open>tests_entries =
    [(''tests/contract/README.md'', ''# contract tests\<newline>''),
     (''tests/integration/README.md'', ''# integration tests\<newline>''),
     (''tests/sim/README.md'', ''# sim regression tests\<newline>''),
     (''tests/e2e/README.md'', ''# end-to-end tests\<newline>'')]\<close>

text \<open>
  Lines 19-255: the display, then the loops and the \<^verbatim>\<open>update\<close> calls, in program
  order. The argument of an \<^verbatim>\<open>update\<close> is a dictionary of its own, built by a display.
\<close>

definition module_body :: "('d \<Rightarrow> string \<Rightarrow> string \<Rightarrow> 'd) \<Rightarrow> 'd \<Rightarrow> 'd" where
  "module_body setitem d0 =
     (let d = dict_update setitem d0 literal_entries;
          d = fold (\<lambda>svc d.
                setitem
                  (setitem d (''backend/services/'' @ svc @ ''/src/README.md'')
                     (''# '' @ svc @ ''\<newline>''))
                  (''backend/services/'' @ svc @ ''/tests/README.md'')
                  (''# tests for '' @ svc @ ''\<newline>''))
                SERVICE_NAMES d;
          d = dict_update setitem d (dict_display flutter_entries);
          d = fold (\<lambda>feat d.
                setitem d (''apps/operator_flutter/lib/features/'' @ feat @ ''/README.md'')
                  (''# '' @ feat @ ''\<newline>''))
                FLUTTER_FEATURES d;
          d = setitem d ''apps/operator_flutter/test/README.md'' ''# tests\<newline>'';
          d = dict_update setitem d (dict_display ml_entries);
          d = fold (\<lambda>m d.
                setitem d (''ml/models/'' @ m @ ''/README.md'') (''# '' @ m @ ''\<newline>''))
                ML_MODELS d;
          d = dict_update setitem d (dict_display simulation_entries);
          d = dict_update setitem d (dict_display tools_entries);
          d = dict_update setitem d (dict_display tests_entries)
      in d)"

definition REPO_STRUCTURE :: "(string \<times> string) list" where
  "REPO_STRUCTURE = module_body dict_setitem []"

definition insertion_log :: "(string \<times> string) list" where
  "insertion_log = module_body log_setitem []"

subsection \<open>Paths\<close>

text \<open>
  A \<^verbatim>\<open>Path\<close> is the list of its components below the file-system root \<^verbatim>\<open>/\<close>.
  \<open>parts\<close> reads a string the way \<^verbatim>\<open>PurePosixPath\<close> does: it is cut at every \<^verbatim>\<open>/\<close>, and
  empty components and \<^verbatim>\<open>.\<close> are dropped. \<open>joinpath\<close> is the operator \<^verbatim>\<open>root / rel\<close>: an
  absolute right operand replaces the left one. A component \<^verbatim>\<open>..\<close> is kept as a name like
  any other (the table has none, lemma \<open>keys_no_dotdot\<close>).
\<close>

type_synonym path = "string list"

fun split_sep :: "string \<Rightarrow> string list" where
  "split_sep [] = [[]]"
| "split_sep (c # cs) =
     (if c = CHR ''/'' then [] # split_sep cs
      else (case split_sep cs of w # ws \<Rightarrow> (c # w) # ws | [] \<Rightarrow> [[c]]))"

definition parts :: "string \<Rightarrow> path" where
  "parts s = filter (\<lambda>c. c \<noteq> [] \<and> c \<noteq> ''.'') (split_sep s)"

definition is_absolute :: "string \<Rightarrow> bool" where
  "is_absolute s = (case s of [] \<Rightarrow> False | c # _ \<Rightarrow> c = CHR ''/'')"

definition joinpath :: "path \<Rightarrow> string \<Rightarrow> path" where
  "joinpath root rel = (if is_absolute rel then parts rel else root @ parts rel)"

text \<open>\<^verbatim>\<open>path.parent\<close>; the parent of the root is the root.\<close>

definition parent :: "path \<Rightarrow> path" where
  "parent p = butlast p"

subsection \<open>The file system and the host\<close>

text \<open>
  A node is a regular file with its content and permission bits, or a directory with its
  permission bits. The state maps the paths that exist to their nodes.
\<close>

datatype node = File string nat | Dir nat

type_synonym filesystem = "path \<rightharpoonup> node"

datatype oserror =
  FileExistsError | FileNotFoundError | NotADirectoryError | IsADirectoryError
| PermissionError | OSError nat

text \<open>
  What the host decides: which calls it refuses for a reason of its own (permission denied,
  read-only or full device, ...), and the permission bits it gives to what it creates
  (\<^verbatim>\<open>0o777\<close> and \<^verbatim>\<open>0o666\<close> less the umask). \<open>write_fault\<close> is a failure after the file was
  opened, with the number of bytes that were stored before it. \<open>stat_fault\<close> is an error of
  \<^verbatim>\<open>stat\<close> that \<^verbatim>\<open>Path.exists\<close> and \<^verbatim>\<open>Path.is_dir\<close> raise again: any error but a missing path
  or a prefix that is no directory, for example permission denied on a parent that cannot
  be searched.
\<close>

record host =
  mkdir_fault :: "path \<Rightarrow> oserror option"
  stat_fault :: "path \<Rightarrow> oserror option"
  open_fault :: "path \<Rightarrow> oserror option"
  write_fault :: "path \<Rightarrow> (oserror \<times> nat) option"
  chmod_fault :: "path \<Rightarrow> oserror option"
  dir_mode :: nat
  file_mode :: nat

text \<open>The nodes of a state: directories and regular files.\<close>

definition is_dir :: "filesystem \<Rightarrow> path \<Rightarrow> bool" where
  "is_dir fs p = (case fs p of Some (Dir _) \<Rightarrow> True | _ \<Rightarrow> False)"

definition is_file :: "filesystem \<Rightarrow> path \<Rightarrow> bool" where
  "is_file fs p = (case fs p of Some (File _ _) \<Rightarrow> True | _ \<Rightarrow> False)"

text \<open>
  Path resolution: every proper prefix of the path has to be a directory. The first one
  that is not decides the error.
\<close>

definition resolve :: "filesystem \<Rightarrow> path \<Rightarrow> oserror option" where
  "resolve fs p =
     (case find (\<lambda>q. \<not> is_dir fs q) (butlast (prefixes p)) of
        None \<Rightarrow> None
      | Some q \<Rightarrow> if fs q = None then Some FileNotFoundError else Some NotADirectoryError)"

text \<open>
  \<^verbatim>\<open>Path.exists\<close> and \<^verbatim>\<open>Path.is_dir\<close> call \<^verbatim>\<open>stat\<close>: a path that is missing or does not
  resolve gives \<^verbatim>\<open>False\<close>, every other error of \<^verbatim>\<open>stat\<close> is raised.
\<close>

definition path_exists :: "host \<Rightarrow> filesystem \<Rightarrow> path \<Rightarrow> oserror + bool" where
  "path_exists h fs p =
     (case stat_fault h p of
        Some e \<Rightarrow> Inl e
      | None \<Rightarrow> Inr (resolve fs p = None \<and> fs p \<noteq> None))"

definition path_is_dir :: "host \<Rightarrow> filesystem \<Rightarrow> path \<Rightarrow> oserror + bool" where
  "path_is_dir h fs p =
     (case stat_fault h p of
        Some e \<Rightarrow> Inl e
      | None \<Rightarrow> Inr (resolve fs p = None \<and> is_dir fs p))"

text \<open>\<^verbatim>\<open>os.mkdir\<close>.\<close>

definition os_mkdir :: "host \<Rightarrow> path \<Rightarrow> filesystem \<Rightarrow> oserror option \<times> filesystem" where
  "os_mkdir h p fs =
     (case mkdir_fault h p of
        Some e \<Rightarrow> (Some e, fs)
      | None \<Rightarrow>
          (case resolve fs p of
             Some e \<Rightarrow> (Some e, fs)
           | None \<Rightarrow>
               if fs p \<noteq> None then (Some FileExistsError, fs)
               else (None, fs(p \<mapsto> Dir (dir_mode h)))))"

text \<open>
  \<^verbatim>\<open>Path.mkdir\<close> as pathlib defines it. Without \<^verbatim>\<open>parents\<close>: a missing parent is
  raised; any other error is dropped when \<^verbatim>\<open>exist_ok\<close> is set and \<^verbatim>\<open>is_dir\<close> finds the path
  to be a directory.
\<close>

definition mkdir_flat ::
  "host \<Rightarrow> path \<Rightarrow> bool \<Rightarrow> filesystem \<Rightarrow> oserror option \<times> filesystem" where
  "mkdir_flat h p exist_ok fs =
     (case os_mkdir h p fs of
        (None, fs') \<Rightarrow> (None, fs')
      | (Some e, fs') \<Rightarrow>
          if e = FileNotFoundError then (Some e, fs')
          else if \<not> exist_ok then (Some e, fs')
          else (case path_is_dir h fs' p of
                  Inl e' \<Rightarrow> (Some e', fs')
                | Inr d \<Rightarrow> if d then (None, fs') else (Some e, fs')))"

text \<open>
  \<^verbatim>\<open>mkdir(parents=True, exist_ok=True)\<close>: on a missing parent the parent is made the same
  way, and then the directory itself without \<^verbatim>\<open>parents\<close>.
\<close>

function mkdir_parents :: "host \<Rightarrow> path \<Rightarrow> filesystem \<Rightarrow> oserror option \<times> filesystem" where
  "mkdir_parents h p fs =
     (case os_mkdir h p fs of
        (None, fs') \<Rightarrow> (None, fs')
      | (Some e, fs') \<Rightarrow>
          if e = FileNotFoundError then
            (if parent p = p then (Some e, fs')
             else (case mkdir_parents h (parent p) fs' of
                     (Some e', fs1) \<Rightarrow> (Some e', fs1)
                   | (None, fs1) \<Rightarrow> mkdir_flat h p True fs1))
          else (case path_is_dir h fs' p of
                  Inl e' \<Rightarrow> (Some e', fs')
                | Inr d \<Rightarrow> if d then (None, fs') else (Some e, fs')))"
  by pat_completeness auto
termination
proof (relation "measure (\<lambda>(h, p, fs). length p)")
  fix h :: host and p :: path and fs fs' :: filesystem
  assume "parent p \<noteq> p"
  then have "p \<noteq> []"
    by (auto simp: parent_def)
  then show "((h, parent p, fs'), (h, p, fs)) \<in> measure (\<lambda>(h, p, fs). length p)"
    by (simp add: parent_def)
qed simp

declare mkdir_parents.simps [simp del]

text \<open>
  \<^verbatim>\<open>Path.write_text\<close>: the file is opened for writing, which creates it or empties it, and
  the text is written. A directory cannot be opened for writing.
\<close>

definition write_text ::
  "host \<Rightarrow> path \<Rightarrow> string \<Rightarrow> filesystem \<Rightarrow> oserror option \<times> filesystem" where
  "write_text h p data fs =
     (case open_fault h p of
        Some e \<Rightarrow> (Some e, fs)
      | None \<Rightarrow>
          (case resolve fs p of
             Some e \<Rightarrow> (Some e, fs)
           | None \<Rightarrow>
               (case fs p of
                  Some (Dir m) \<Rightarrow> (Some IsADirectoryError, fs)
                | opened \<Rightarrow>
                    (let m = (case opened of Some (File _ m') \<Rightarrow> m' | _ \<Rightarrow> file_mode h) in
                     case write_fault h p of
                       Some (e, n) \<Rightarrow> (Some e, fs(p \<mapsto> File (take n data) m))
                     | None \<Rightarrow> (None, fs(p \<mapsto> File data m))))))"

text \<open>\<^verbatim>\<open>Path.chmod\<close>.\<close>

definition path_chmod ::
  "host \<Rightarrow> path \<Rightarrow> nat \<Rightarrow> filesystem \<Rightarrow> oserror option \<times> filesystem" where
  "path_chmod h p m fs =
     (case chmod_fault h p of
        Some e \<Rightarrow> (Some e, fs)
      | None \<Rightarrow>
          (case resolve fs p of
             Some e \<Rightarrow> (Some e, fs)
           | None \<Rightarrow>
               (case fs p of
                  None \<Rightarrow> (Some FileNotFoundError, fs)
                | Some (File c _) \<Rightarrow> (None, fs(p \<mapsto> File c m))
                | Some (Dir _) \<Rightarrow> (None, fs(p \<mapsto> Dir m)))))"

subsection \<open>The program\<close>

text \<open>Lines 258-259.\<close>

definition ensure_parent_dir :: "host \<Rightarrow> path \<Rightarrow> filesystem \<Rightarrow> oserror option \<times> filesystem" where
  "ensure_parent_dir h p fs = mkdir_parents h (parent p) fs"

text \<open>Lines 262-266.\<close>

definition write_file ::
  "host \<Rightarrow> path \<Rightarrow> string \<Rightarrow> bool \<Rightarrow> filesystem \<Rightarrow> oserror option \<times> filesystem" where
  "write_file h p data overwrite fs =
     (case ensure_parent_dir h p fs of
        (Some e, fs1) \<Rightarrow> (Some e, fs1)
      | (None, fs1) \<Rightarrow>
          (case path_exists h fs1 p of
             Inl e \<Rightarrow> (Some e, fs1)
           | Inr found \<Rightarrow>
               if found \<and> \<not> overwrite then (None, fs1)
               else write_text h p data fs1))"

text \<open>
  Lines 269-277. The handler \<^verbatim>\<open>except Exception: pass\<close> takes every error of
  \<^verbatim>\<open>chmod\<close>; the loop goes on with the state the failed call left. The test
  \<^verbatim>\<open>p.exists()\<close> stands before the \<^verbatim>\<open>try\<close>: an error it raises leaves the function.
\<close>

fun chmod_executables ::
  "host \<Rightarrow> path \<Rightarrow> string list \<Rightarrow> filesystem \<Rightarrow> oserror option \<times> filesystem" where
  "chmod_executables h root [] fs = (None, fs)"
| "chmod_executables h root (rp # relpaths) fs =
     (let p = joinpath root rp in
      case path_exists h fs p of
        Inl e \<Rightarrow> (Some e, fs)
      | Inr found \<Rightarrow>
          if found then
            (case path_chmod h p 493 fs of
               (Some e, fs1) \<Rightarrow> chmod_executables h root relpaths fs1
             | (None, fs1) \<Rightarrow> chmod_executables h root relpaths fs1)
          else chmod_executables h root relpaths fs)"

text \<open>
  Lines 290-291, the loop over the items of the table: the first call that raises ends the
  loop.
\<close>

fun write_all ::
  "host \<Rightarrow> path \<Rightarrow> (string \<times> string) list \<Rightarrow> bool \<Rightarrow> filesystem \<Rightarrow>
   oserror option \<times> filesystem" where
  "write_all h root [] overwrite fs = (None, fs)"
| "write_all h root ((rel, data) # table) overwrite fs =
     (case write_file h (joinpath root rel) data overwrite fs of
        (Some e, fs1) \<Rightarrow> (Some e, fs1)
      | (None, fs1) \<Rightarrow> write_all h root table overwrite fs1)"

definition executables :: "string list" where
  \<comment> \<open>lines 294-314\<close>
  \<open>executables =
    [''.githooks/commit-msg'',
     ''.githooks/pre-commit'',
     ''.githooks/pre-push'',
     ''vehicle/scripts/run_vehicle.sh'',
     ''vehicle/scripts/record_bag.sh'',
     ''vehicle/scripts/replay_bag.sh'',
     ''vehicle/scripts/health_check.sh'',
     ''vehicle/scripts/update_models.sh'',
     ''infra/codeserver/entrypoint.sh'',
     ''infra/codeserver/init-repo.sh'',
     ''tools/dev/setup-hooks.sh'',
     ''tools/dev/setup-codeserver.sh'',
     ''tools/dev/format.sh'',
     ''tools/dev/generate-clients.sh'',
     ''tools/git/_commit_tag.sh'',
     ''tools/git/anmol'',
     ''tools/git/jaspinder'',
     ''tools/git/chris'',
     ''tools/git/prabh'']\<close>

text \<open>
  Lines 280-324. \<open>root\<close> is the resolved \<^verbatim>\<open>--root\<close> and \<open>overwrite\<close> the flag; parsing
  the command line and printing the summary touch no file and are left out. \<^verbatim>\<open>0o755\<close> is
  493.
\<close>

definition main :: "host \<Rightarrow> path \<Rightarrow> bool \<Rightarrow> filesystem \<Rightarrow> oserror option \<times> filesystem" where
  "main h root overwrite fs =
     (case mkdir_parents h root fs of
        (Some e, fs0) \<Rightarrow> (Some e, fs0)
      | (None, fs0) \<Rightarrow>
          (case write_all h root REPO_STRUCTURE overwrite fs0 of
             (Some e, fs1) \<Rightarrow> (Some e, fs1)
           | (None, fs1) \<Rightarrow> chmod_executables h root executables fs1))"

text \<open>
  Lines 327-328: the interpreter ends with status 0 when \<^verbatim>\<open>main\<close> returns and with
  status 1, after a traceback on standard error, when an exception leaves it.
\<close>

definition exit_status :: "oserror option \<Rightarrow> nat" where
  "exit_status r = (case r of None \<Rightarrow> 0 | Some _ \<Rightarrow> 1)"

definition run_script :: "host \<Rightarrow> path \<Rightarrow> bool \<Rightarrow> filesystem \<Rightarrow> nat \<times> filesystem" where
  "run_script h root overwrite fs =
     (case main h root overwrite fs of (r, fs') \<Rightarrow> (exit_status r, fs'))"

section \<open>Notions for the properties\<close>

text \<open>
  The definitions below are not part of the program: they name the states, hosts and paths
  the properties speak about.
\<close>

text \<open>The entries the three loops make, as data (lines 157-159, 178-179, 208-209), and the insertions of the whole module in program order.\<close>

definition service_entries :: "string \<Rightarrow> (string \<times> string) list" where
  "service_entries svc =
     [(''backend/services/'' @ svc @ ''/src/README.md'', ''# '' @ svc @ ''\<newline>''),
      (''backend/services/'' @ svc @ ''/tests/README.md'', ''# tests for '' @ svc @ ''\<newline>'')]"

definition feature_entry :: "string \<Rightarrow> string \<times> string" where
  "feature_entry feat =
     (''apps/operator_flutter/lib/features/'' @ feat @ ''/README.md'', ''# '' @ feat @ ''\<newline>'')"

definition model_entry :: "string \<Rightarrow> string \<times> string" where
  "model_entry m = (''ml/models/'' @ m @ ''/README.md'', ''# '' @ m @ ''\<newline>'')"

definition entries_in_order :: "(string \<times> string) list" where
  "entries_in_order =
     literal_entries @ concat (map service_entries SERVICE_NAMES) @
     flutter_entries @ map feature_entry FLUTTER_FEATURES @
     [(''apps/operator_flutter/test/README.md'', ''# tests\<newline>'')] @
     ml_entries @ map model_entry ML_MODELS @
     simulation_entries @ tools_entries @ tests_entries"

text \<open>A list of paths is \<open>prefix_free\<close> when no path occurs twice and none is a prefix of another.\<close>

definition prefix_free :: "'a list list \<Rightarrow> bool" where
  "prefix_free ps = (distinct ps \<and> (\<forall>p \<in> set ps. \<forall>q \<in> set ps. prefix p q \<longrightarrow> p = q))"

text \<open>A check for \<open>prefix_free\<close> that compares few strings: \<open>group_heads\<close> cuts a list of paths into runs with the same first component, and \<open>indep_upto n\<close> asks that the runs have distinct first components and that the rest of each run passes the check, \<open>n\<close> levels deep. Lemma \<open>indep_upto_sound\<close>.\<close>

fun group_heads :: "'a list list \<Rightarrow> ('a \<times> 'a list list) list" where
  "group_heads [] = []"
| "group_heads ([] # ps) = group_heads ps"
| "group_heads ((a # p) # ps) =
     (case group_heads ps of
        [] \<Rightarrow> [(a, [p])]
      | (b, ts) # gs \<Rightarrow> if a = b then (a, p # ts) # gs else (a, [p]) # (b, ts) # gs)"

primrec indep_upto :: "nat \<Rightarrow> 'a list list \<Rightarrow> bool" where
  "indep_upto 0 ps = (ps = [])"
| "indep_upto (Suc n) ps =
     (if [] \<in> set ps then False
      else (let gs = group_heads ps in
            distinct (map fst gs) \<and> list_all (\<lambda>(h, ts). ts = [[]] \<or> indep_upto n ts) gs))"

definition ungroup :: "('a \<times> 'a list list) list \<Rightarrow> 'a list list" where
  "ungroup gs = concat (map (\<lambda>(h, ts). map ((#) h) ts) gs)"

text \<open>The insertions of the module, block by block.\<close>

definition blocks :: "(string \<times> string) list list" where
  "blocks =
     [literal_entries, concat (map service_entries SERVICE_NAMES),
      flutter_entries, map feature_entry FLUTTER_FEATURES,
      [(''apps/operator_flutter/test/README.md'', ''# tests\<newline>'')],
      ml_entries, map model_entry ML_MODELS,
      simulation_entries, tools_entries, tests_entries]"

text \<open>A state is a tree: the root is a directory, and the parent of every node is a directory.\<close>

definition wf_fs :: "filesystem \<Rightarrow> bool" where
  "wf_fs fs = (is_dir fs [] \<and> (\<forall>p. fs p \<noteq> None \<longrightarrow> is_dir fs (parent p)))"

text \<open>The content of the regular file at a path, and the permission bits of the node at a path.\<close>

definition content_at :: "filesystem \<Rightarrow> path \<Rightarrow> string option" where
  "content_at fs p = (case fs p of Some (File c _) \<Rightarrow> Some c | _ \<Rightarrow> None)"

definition mode_at :: "filesystem \<Rightarrow> path \<Rightarrow> nat option" where
  "mode_at fs p = (case fs p of Some (File _ m) \<Rightarrow> Some m | Some (Dir m) \<Rightarrow> Some m | None \<Rightarrow> None)"

text \<open>\<open>fs'\<close> is \<open>fs\<close> with new directories at paths of \<open>D\<close>.\<close>

definition dirs_added :: "path set \<Rightarrow> filesystem \<Rightarrow> filesystem \<Rightarrow> bool" where
  "dirs_added D fs fs' = (\<forall>q. fs' q = fs q \<or> (fs q = None \<and> q \<in> D \<and> is_dir fs' q))"

text \<open>The host refuses no call the writer makes: no \<^verbatim>\<open>mkdir\<close>, \<^verbatim>\<open>stat\<close>, \<^verbatim>\<open>open\<close> or \<^verbatim>\<open>write\<close>.\<close>

definition writer_fault_free :: "host \<Rightarrow> bool" where
  "writer_fault_free h =
     (mkdir_fault h = (\<lambda>_. None) \<and> stat_fault h = (\<lambda>_. None) \<and>
      open_fault h = (\<lambda>_. None) \<and> write_fault h = (\<lambda>_. None))"

text \<open>The host refuses no call the writer makes for the file at \<open>p\<close>.\<close>

definition writer_clear_at :: "host \<Rightarrow> path \<Rightarrow> bool" where
  "writer_clear_at h p =
     ((\<forall>q. strict_prefix q p \<longrightarrow> mkdir_fault h q = None \<and> stat_fault h q = None) \<and>
      stat_fault h p = None \<and> open_fault h p = None \<and> write_fault h p = None)"

text \<open>The paths the loop writes to.\<close>

definition targets :: "path \<Rightarrow> (string \<times> string) list \<Rightarrow> path list" where
  "targets root t = map (\<lambda>kc. joinpath root (fst kc)) t"

text \<open>\<open>fs'\<close> is \<open>fs\<close> up to permission bits, and every changed node has the bits \<^verbatim>\<open>0o755\<close>. \<open>chmod_due\<close>: the path exists, resolves, and the host does not refuse its \<^verbatim>\<open>chmod\<close>.\<close>

definition modes_changed :: "filesystem \<Rightarrow> filesystem \<Rightarrow> bool" where
  "modes_changed fs fs' =
     (\<forall>q. case fs q of
            None \<Rightarrow> fs' q = None
          | Some (File c m) \<Rightarrow> fs' q = Some (File c m) \<or> fs' q = Some (File c 493)
          | Some (Dir m) \<Rightarrow> fs' q = Some (Dir m) \<or> fs' q = Some (Dir 493))"

text \<open>The first error of \<^verbatim>\<open>stat\<close> along a list of relative paths.\<close>

fun first_stat_error :: "host \<Rightarrow> path \<Rightarrow> string list \<Rightarrow> oserror option" where
  "first_stat_error h root [] = None"
| "first_stat_error h root (rp # relpaths) =
     (case stat_fault h (joinpath root rp) of
        Some e \<Rightarrow> Some e
      | None \<Rightarrow> first_stat_error h root relpaths)"

definition chmod_due :: "host \<Rightarrow> filesystem \<Rightarrow> path \<Rightarrow> bool" where
  "chmod_due h fs p = (fs p \<noteq> None \<and> chmod_fault h p = None \<and> resolve fs p = None)"

text \<open>An empty root: nothing exists below it, and neither the root nor a prefix of it is a regular file (it may exist as a directory or not at all). \<open>unblocked\<close>: no proper prefix of a target is a regular file.\<close>

definition empty_root :: "filesystem \<Rightarrow> path \<Rightarrow> bool" where
  "empty_root fs root =
     ((\<forall>q. prefix q root \<longrightarrow> \<not> is_file fs q) \<and> (\<forall>q. strict_prefix root q \<longrightarrow> fs q = None))"

definition unblocked :: "filesystem \<Rightarrow> path \<Rightarrow> bool" where
  "unblocked fs root =
     (\<forall>p \<in> set (targets root REPO_STRUCTURE). \<forall>q. strict_prefix q p \<longrightarrow> \<not> is_file fs q)"

text \<open>Hosts and states of the concrete runs below.\<close>

definition quiet_host :: host where
  "quiet_host =
     \<lparr>mkdir_fault = (\<lambda>_. None), stat_fault = (\<lambda>_. None), open_fault = (\<lambda>_. None),
      write_fault = (\<lambda>_. None), chmod_fault = (\<lambda>_. None), dir_mode = 493, file_mode = 420\<rparr>"

definition bare_fs :: filesystem where
  "bare_fs = [[] \<mapsto> Dir 493]"

definition seeded_fs :: filesystem where
  "seeded_fs = [[] \<mapsto> Dir 493, [''srv''] \<mapsto> Dir 493, [''srv'', ''README.md''] \<mapsto> File ''mine'' 384]"

text \<open>A host that refuses to create \<^verbatim>\<open>/srv/.github\<close>, a host that refuses the \<^verbatim>\<open>chmod\<close> of one hook, and a host on which \<^verbatim>\<open>/srv/.githooks\<close> cannot be searched, so that \<^verbatim>\<open>stat\<close> fails below it.\<close>

definition refusing_host :: host where
  "refusing_host =
     quiet_host\<lparr>mkdir_fault := (\<lambda>p. if p = [''srv'', ''.github''] then Some PermissionError else None)\<rparr>"



definition srv_fs :: filesystem where
  "srv_fs = [[] \<mapsto> Dir 493, [''srv''] \<mapsto> Dir 493]"



definition blocked_fs :: filesystem where
  "blocked_fs = [[] \<mapsto> Dir 493, [''README.md''] \<mapsto> Dir 448]"

section \<open>Lemmas\<close>

subsection \<open>The table as a list of insertions\<close>

lemma dict_setitem_fresh: "k \<notin> fst ` set d \<Longrightarrow> dict_setitem d k v = d @ [(k, v)]"
  by (induction d) auto

lemma fold_setitem_fresh:
  "distinct (map fst (d @ kvs)) \<Longrightarrow> fold (\<lambda>(k, v) d. dict_setitem d k v) kvs d = d @ kvs"
proof (induction kvs arbitrary: d)
  case Nil
  then show ?case by simp
next
  case (Cons kv kvs)
  obtain k v where kv: "kv = (k, v)" by (cases kv)
  from Cons.prems have fresh: "k \<notin> fst ` set d"
    by (auto simp: kv)
  from Cons.prems have "distinct (map fst ((d @ [(k, v)]) @ kvs))"
    by (auto simp: kv)
  then have "fold (\<lambda>(k, v) d. dict_setitem d k v) kvs (d @ [(k, v)]) = (d @ [(k, v)]) @ kvs"
    by (rule Cons.IH)
  then show ?case
    by (simp add: kv dict_setitem_fresh [OF fresh])
qed

lemma dict_display_distinct: "distinct (map fst kvs) \<Longrightarrow> dict_display kvs = kvs"
  using fold_setitem_fresh [of "[]" kvs] by (simp add: dict_display_def)

lemma dict_update_fresh:
  "distinct (map fst (d @ kvs)) \<Longrightarrow> dict_update dict_setitem d kvs = d @ kvs"
  by (simp add: dict_update_def fold_setitem_fresh)

lemma fold_log: "fold (\<lambda>(k, v) d. log_setitem d k v) kvs l = l @ kvs"
  by (induction kvs arbitrary: l) (auto simp: log_setitem_def)

lemma dict_update_log: "dict_update log_setitem l kvs = l @ kvs"
  by (simp add: dict_update_def fold_log)

lemma service_loop:
  "fold (\<lambda>svc d.
      setitem
        (setitem d (''backend/services/'' @ svc @ ''/src/README.md'') (''# '' @ svc @ ''\<newline>''))
        (''backend/services/'' @ svc @ ''/tests/README.md'') (''# tests for '' @ svc @ ''\<newline>''))
    names d
   = dict_update setitem d (concat (map service_entries names))"
  by (induction names arbitrary: d) (simp_all add: dict_update_def service_entries_def)

lemma feature_loop:
  "fold (\<lambda>feat d.
      setitem d (''apps/operator_flutter/lib/features/'' @ feat @ ''/README.md'')
        (''# '' @ feat @ ''\<newline>''))
    names d
   = dict_update setitem d (map feature_entry names)"
  by (induction names arbitrary: d) (simp_all add: dict_update_def feature_entry_def)

lemma model_loop:
  "fold (\<lambda>m d. setitem d (''ml/models/'' @ m @ ''/README.md'') (''# '' @ m @ ''\<newline>'')) names d
   = dict_update setitem d (map model_entry names)"
  by (induction names arbitrary: d) (simp_all add: dict_update_def model_entry_def)

lemma setitem_as_update: "setitem d k v = dict_update setitem d [(k, v)]"
  by (simp add: dict_update_def)

lemma module_body_updates:
  "module_body setitem d0 =
     dict_update setitem
      (dict_update setitem
        (dict_update setitem
          (dict_update setitem
            (dict_update setitem
              (dict_update setitem
                (dict_update setitem
                  (dict_update setitem
                    (dict_update setitem
                      (dict_update setitem d0 literal_entries)
                      (concat (map service_entries SERVICE_NAMES)))
                    (dict_display flutter_entries))
                  (map feature_entry FLUTTER_FEATURES))
                [(''apps/operator_flutter/test/README.md'', ''# tests\<newline>'')])
              (dict_display ml_entries))
            (map model_entry ML_MODELS))
          (dict_display simulation_entries))
        (dict_display tools_entries))
      (dict_display tests_entries)"
proof -
  have one: "\<And>d k v. setitem d k v = dict_update setitem d [(k, v)]"
    by (simp add: dict_update_def)
  show ?thesis
    unfolding module_body_def Let_def service_loop feature_loop model_loop
    by (rule arg_cong [where f = "\<lambda>d. dict_update setitem (dict_update setitem (dict_update setitem
          (dict_update setitem (dict_update setitem d (dict_display ml_entries)) (map model_entry ML_MODELS))
          (dict_display simulation_entries)) (dict_display tools_entries)) (dict_display tests_entries)"])
       (rule one)
qed

subsection \<open>Paths that do not lie on one another\<close>

lemma ungroup_simps [simp]:
  "ungroup [] = []"
  "ungroup ((h, ts) # gs) = map ((#) h) ts @ ungroup gs"
  by (simp_all add: ungroup_def)

lemma ungroup_group_heads: "[] \<notin> set ps \<Longrightarrow> ungroup (group_heads ps) = ps"
  by (induction ps rule: group_heads.induct) (auto split: list.splits)

lemma prefix_free_Nil [simp]: "prefix_free []"
  by (simp add: prefix_free_def)

lemma prefix_free_single [simp]: "prefix_free [p]"
  by (simp add: prefix_free_def)

lemma prefix_free_append:
  "prefix_free (ps @ qs) \<longleftrightarrow>
     prefix_free ps \<and> prefix_free qs \<and>
     (\<forall>p \<in> set ps. \<forall>q \<in> set qs. \<not> prefix p q \<and> \<not> prefix q p)"
  unfolding prefix_free_def by (auto 4 4)

lemma prefix_free_map_Cons: "prefix_free ts \<Longrightarrow> prefix_free (map ((#) h) ts)"
  unfolding prefix_free_def by (auto simp: distinct_map inj_on_def)

lemma ungroup_heads: "p \<in> set (ungroup gs) \<Longrightarrow> \<exists>h t. p = h # t \<and> h \<in> fst ` set gs"
  by (induction gs) (auto simp: ungroup_def)

lemma prefix_free_ungroup:
  "distinct (map fst gs) \<Longrightarrow> \<forall>(h, ts) \<in> set gs. prefix_free ts \<Longrightarrow> prefix_free (ungroup gs)"
proof (induction gs)
  case Nil
  then show ?case by simp
next
  case (Cons g gs)
  obtain h ts where g: "g = (h, ts)" by (cases g)
  from Cons.prems have h: "h \<notin> fst ` set gs" and ts: "prefix_free ts"
    by (auto simp: g)
  from Cons have rest: "prefix_free (ungroup gs)"
    by simp
  have cross: "\<not> prefix p q \<and> \<not> prefix q p"
    if "p \<in> set (map ((#) h) ts)" and "q \<in> set (ungroup gs)" for p q
  proof -
    from that(1) obtain t where p: "p = h # t" by auto
    from ungroup_heads [OF that(2)] obtain h' t' where q: "q = h' # t'" and "h' \<in> fst ` set gs"
      by blast
    with h have "h \<noteq> h'" by auto
    then show ?thesis by (simp add: p q)
  qed
  show ?case
    unfolding g ungroup_simps prefix_free_append
    using prefix_free_map_Cons [OF ts] rest cross by blast
qed

lemma indep_upto_sound: "indep_upto n ps \<Longrightarrow> prefix_free ps"
proof (induction n arbitrary: ps)
  case 0
  then show ?case by simp
next
  case (Suc n)
  from Suc.prems have nonempty: "[] \<notin> set ps"
    by (simp split: if_splits)
  from Suc.prems nonempty have heads: "distinct (map fst (group_heads ps))"
    and groups: "\<forall>(h, ts) \<in> set (group_heads ps). ts = [[]] \<or> indep_upto n ts"
    by (simp_all add: Let_def list_all_iff)
  from groups Suc.IH have "\<forall>(h, ts) \<in> set (group_heads ps). prefix_free ts"
    by fastforce
  from prefix_free_ungroup [OF heads this] show ?case
    by (simp add: ungroup_group_heads [OF nonempty])
qed

lemma indep_upto_nonempty: "indep_upto (Suc n) ps \<Longrightarrow> [] \<notin> set ps"
  by (simp split: if_splits)

subsection \<open>The keys of the table\<close>

lemma key_paths_indep: "indep_upto 8 (map (parts \<circ> fst) entries_in_order)"
  by code_simp

lemma keys_relative: "list_all (\<lambda>kc. \<not> is_absolute (fst kc)) entries_in_order"
  by code_simp

lemma keys_no_dotdot: "list_all (\<lambda>kc. ''..'' \<notin> set (parts (fst kc))) entries_in_order"
  by code_simp

lemma key_paths_free: "prefix_free (map (parts \<circ> fst) entries_in_order)"
  by (rule indep_upto_sound [OF key_paths_indep])

lemma key_paths_nonempty: "[] \<notin> set (map (parts \<circ> fst) entries_in_order)"
proof -
  have "indep_upto (Suc 7) (map (parts \<circ> fst) entries_in_order)"
    using key_paths_indep by (simp add: eval_nat_numeral)
  then show ?thesis
    by (rule indep_upto_nonempty)
qed

lemma keys_distinct: "distinct (map fst entries_in_order)"
proof -
  from key_paths_free have "distinct (map (parts \<circ> fst) entries_in_order)"
    by (simp add: prefix_free_def)
  then have "distinct (map parts (map fst entries_in_order))"
    by (simp only: map_map)
  then show ?thesis
    using distinct_map by blast
qed

lemma entries_blocks_distinct:
  "distinct (map fst flutter_entries)" "distinct (map fst ml_entries)"
  "distinct (map fst simulation_entries)" "distinct (map fst tools_entries)"
  "distinct (map fst tests_entries)"
  using keys_distinct by (simp_all add: entries_in_order_def)

lemma displays:
  "dict_display flutter_entries = flutter_entries" "dict_display ml_entries = ml_entries"
  "dict_display simulation_entries = simulation_entries"
  "dict_display tools_entries = tools_entries" "dict_display tests_entries = tests_entries"
  by (simp_all add: dict_display_distinct entries_blocks_distinct)

lemma entries_in_order_blocks: "entries_in_order = concat blocks"
  by (simp add: entries_in_order_def blocks_def)

lemma module_body_blocks:
  "module_body setitem d0 = fold (\<lambda>kvs d. dict_update setitem d kvs) blocks d0"
  by (simp add: module_body_updates blocks_def displays)

lemma fold_update_log:
  "fold (\<lambda>kvs d. dict_update log_setitem d kvs) bs d0 = d0 @ concat bs"
  by (induction bs arbitrary: d0) (simp_all add: dict_update_log)

lemma fold_update_dict:
  "distinct (map fst (d0 @ concat bs)) \<Longrightarrow>
     fold (\<lambda>kvs d. dict_update dict_setitem d kvs) bs d0 = d0 @ concat bs"
proof (induction bs arbitrary: d0)
  case Nil
  then show ?case by simp
next
  case (Cons b bs)
  from Cons.prems have "distinct (map fst (d0 @ b))"
    by auto
  then have step: "dict_update dict_setitem d0 b = d0 @ b"
    by (rule dict_update_fresh)
  from Cons.prems have "distinct (map fst ((d0 @ b) @ concat bs))"
    by simp
  from Cons.IH [OF this] step show ?case
    by simp
qed

lemma insertion_log_eq: "insertion_log = entries_in_order"
  by (simp add: insertion_log_def module_body_blocks fold_update_log entries_in_order_blocks)

lemma REPO_STRUCTURE_eq: "REPO_STRUCTURE = entries_in_order"
proof -
  have "distinct (map fst ([] @ concat blocks))"
    using keys_distinct by (simp add: entries_in_order_blocks)
  from fold_update_dict [OF this] show ?thesis
    by (simp add: REPO_STRUCTURE_def module_body_blocks entries_in_order_blocks)
qed

subsection \<open>Path resolution and well-formed states\<close>

lemma is_dir_upd [simp]:
  "is_dir (fs(p \<mapsto> Dir m)) q = (q = p \<or> is_dir fs q)"
  "is_dir (fs(p \<mapsto> File c m)) q = (q \<noteq> p \<and> is_dir fs q)"
  by (auto simp: is_dir_def)

lemma is_file_upd [simp]:
  "is_file (fs(p \<mapsto> File c m)) q = (q = p \<or> is_file fs q)"
  "is_file (fs(p \<mapsto> Dir m)) q = (q \<noteq> p \<and> is_file fs q)"
  by (auto simp: is_file_def)

lemma is_dir_Some: "is_dir fs p \<longleftrightarrow> (\<exists>m. fs p = Some (Dir m))"
  by (auto simp: is_dir_def split: option.splits node.splits)

lemma is_file_Some: "is_file fs p \<longleftrightarrow> (\<exists>c m. fs p = Some (File c m))"
  by (auto simp: is_file_def split: option.splits node.splits)

lemma not_dir_not_file: "fs p \<noteq> None \<Longrightarrow> \<not> is_dir fs p \<Longrightarrow> is_file fs p"
  by (auto simp: is_dir_def is_file_def split: option.splits node.splits)

lemma dir_not_file: "is_dir fs p \<Longrightarrow> \<not> is_file fs p"
  by (auto simp: is_dir_def is_file_def split: option.splits node.splits)

lemma set_butlast_prefixes: "set (butlast (prefixes p)) = {q. strict_prefix q p}"
proof -
  have e: "prefixes p = butlast (prefixes p) @ [p]"
    by (metis append_butlast_last_id last_prefixes prefixes_not_Nil)
  have "distinct (butlast (prefixes p) @ [p])"
    using distinct_prefixes [of p] e by simp
  then have notin: "p \<notin> set (butlast (prefixes p))"
    by simp
  have "set (prefixes p) = insert p (set (butlast (prefixes p)))"
    by (subst e) simp
  then have "{q. prefix q p} = insert p (set (butlast (prefixes p)))"
    by (simp add: set_prefixes_eq)
  with notin show ?thesis
    by (auto simp: strict_prefix_def)
qed

lemma resolve_None: "resolve fs p = None \<longleftrightarrow> (\<forall>q. strict_prefix q p \<longrightarrow> is_dir fs q)"
proof -
  have "resolve fs p = None \<longleftrightarrow> find (\<lambda>q. \<not> is_dir fs q) (butlast (prefixes p)) = None"
    by (simp add: resolve_def split: option.splits)
  also have "\<dots> \<longleftrightarrow> (\<forall>q. strict_prefix q p \<longrightarrow> is_dir fs q)"
    by (auto simp: find_None_iff set_butlast_prefixes)
  finally show ?thesis .
qed

lemma resolve_Some:
  "resolve fs p = Some e \<Longrightarrow>
     (e = FileNotFoundError \<and> (\<exists>q. strict_prefix q p \<and> fs q = None)) \<or>
     (e = NotADirectoryError \<and> (\<exists>q. strict_prefix q p \<and> is_file fs q))"
proof -
  assume r: "resolve fs p = Some e"
  then obtain q where f: "find (\<lambda>q. \<not> is_dir fs q) (butlast (prefixes p)) = Some q"
    by (auto simp: resolve_def split: option.splits)
  then have "q \<in> set (butlast (prefixes p))" and nd: "\<not> is_dir fs q"
    by (auto simp: find_Some_iff)
  then have sp: "strict_prefix q p"
    by (simp add: set_butlast_prefixes)
  from r f have "e = (if fs q = None then FileNotFoundError else NotADirectoryError)"
    by (auto simp: resolve_def split: if_splits)
  with sp nd show ?thesis
    by (auto intro: not_dir_not_file)
qed

lemma strict_prefix_parent: "strict_prefix q p \<Longrightarrow> prefix q (parent p)"
  by (cases p rule: rev_cases) (auto simp: parent_def strict_prefix_def)

lemma parent_strict: "p \<noteq> [] \<Longrightarrow> strict_prefix (parent p) p"
  by (cases p rule: rev_cases) (auto simp: parent_def strict_prefix_def)

lemma prefix_parent_strict: "p \<noteq> [] \<Longrightarrow> prefix q (parent p) \<Longrightarrow> strict_prefix q p"
  using parent_strict prefix_order.le_less_trans by blast

lemma parent_fix: "parent p = p \<longleftrightarrow> p = []"
  by (cases p rule: rev_cases) (auto simp: parent_def)

lemma wf_prefix_dir:
  "wf_fs fs \<Longrightarrow> fs p \<noteq> None \<Longrightarrow> strict_prefix q p \<Longrightarrow> is_dir fs q"
proof (induction p arbitrary: q rule: rev_induct)
  case Nil
  then show ?case by simp
next
  case (snoc c p)
  from snoc.prems(1,2) have d: "is_dir fs p"
    unfolding wf_fs_def parent_def by (metis butlast_snoc)
  from snoc.prems(3) have "prefix q p"
    by (auto simp: strict_prefix_def)
  then consider "q = p" | "strict_prefix q p"
    by (auto simp: strict_prefix_def)
  then show ?case
  proof cases
    case 1
    with d show ?thesis by simp
  next
    case 2
    from d have "fs p \<noteq> None"
      by (auto simp: is_dir_Some)
    from snoc.IH [OF snoc.prems(1) this 2] show ?thesis .
  qed
qed

lemma wf_resolve: "wf_fs fs \<Longrightarrow> fs p \<noteq> None \<Longrightarrow> resolve fs p = None"
  by (auto simp: resolve_None intro: wf_prefix_dir)

lemma wf_prefix_of_dir: "wf_fs fs \<Longrightarrow> is_dir fs d \<Longrightarrow> prefix q d \<Longrightarrow> is_dir fs q"
  using wf_prefix_dir [of fs d q] by (auto simp: strict_prefix_def is_dir_Some)

subsection \<open>Creating directories\<close>

lemma path_is_dir_True: "path_is_dir h fs p = Inr True \<Longrightarrow> is_dir fs p"
  by (auto simp: path_is_dir_def split: option.splits)

lemma path_is_dir_wf:
  "stat_fault h p = None \<Longrightarrow> wf_fs fs \<Longrightarrow> path_is_dir h fs p = Inr (is_dir fs p)"
  by (auto simp: path_is_dir_def is_dir_Some dest: wf_resolve)

lemma path_exists_True: "path_exists h fs p = Inr True \<Longrightarrow> fs p \<noteq> None"
  by (auto simp: path_exists_def split: option.splits)

lemma path_exists_wf:
  "stat_fault h p = None \<Longrightarrow> wf_fs fs \<Longrightarrow> path_exists h fs p = Inr (fs p \<noteq> None)"
  by (auto simp: path_exists_def dest: wf_resolve)

lemma path_exists_raises: "path_exists h fs p = Inl e \<longleftrightarrow> stat_fault h p = Some e"
  by (auto simp: path_exists_def split: option.splits)

lemma dirs_added_refl [simp]: "dirs_added D fs fs"
  by (simp add: dirs_added_def)

lemma dirs_added_trans:
  "dirs_added D fs fs1 \<Longrightarrow> dirs_added D fs1 fs2 \<Longrightarrow> dirs_added D fs fs2"
  unfolding dirs_added_def by (metis is_dir_Some option.distinct(1))

lemma dirs_added_mono: "dirs_added D fs fs' \<Longrightarrow> D \<subseteq> D' \<Longrightarrow> dirs_added D' fs fs'"
  unfolding dirs_added_def by blast

lemma dirs_added_existing: "dirs_added D fs fs' \<Longrightarrow> fs q \<noteq> None \<Longrightarrow> fs' q = fs q"
  unfolding dirs_added_def by metis

lemma dirs_added_is_dir: "dirs_added D fs fs' \<Longrightarrow> is_dir fs q \<Longrightarrow> is_dir fs' q"
  unfolding dirs_added_def by (metis is_dir_Some)

lemma dirs_added_outside: "dirs_added D fs fs' \<Longrightarrow> q \<notin> D \<Longrightarrow> fs' q = fs q"
  unfolding dirs_added_def by metis

lemma dirs_added_new:
  assumes "dirs_added D fs fs'" and "fs q = None" and "fs' q \<noteq> None"
  shows "q \<in> D \<and> is_dir fs' q"
proof -
  from assms(1) have "fs' q = fs q \<or> (fs q = None \<and> q \<in> D \<and> is_dir fs' q)"
    unfolding dirs_added_def by blast
  with assms(2,3) show ?thesis by auto
qed

lemma dirs_added_not_file:
  assumes "dirs_added D fs fs'" and "\<not> is_file fs q"
  shows "\<not> is_file fs' q"
proof -
  from assms(1) have "fs' q = fs q \<or> is_dir fs' q"
    unfolding dirs_added_def by blast
  with assms(2) show ?thesis
    by (auto simp: is_file_def dest: dir_not_file)
qed

lemma dirs_added_wf:
  assumes "dirs_added D fs fs'" and "wf_fs fs"
    and "\<And>q. fs q = None \<Longrightarrow> fs' q \<noteq> None \<Longrightarrow> is_dir fs' (parent q)"
  shows "wf_fs fs'"
  unfolding wf_fs_def
proof (intro conjI allI impI)
  from assms(1,2) show "is_dir fs' []"
    by (auto simp: wf_fs_def intro: dirs_added_is_dir)
next
  fix p assume p: "fs' p \<noteq> None"
  show "is_dir fs' (parent p)"
  proof (cases "fs p = None")
    case True
    with p assms(3) show ?thesis by blast
  next
    case False
    with assms(2) have "is_dir fs (parent p)"
      by (simp add: wf_fs_def)
    with assms(1) show ?thesis
      by (rule dirs_added_is_dir)
  qed
qed

lemma os_mkdir_cases:
  assumes "os_mkdir h p fs = (r, fs')"
  shows "(r \<noteq> None \<and> fs' = fs) \<or>
         (r = None \<and> fs p = None \<and> resolve fs p = None \<and> fs' = fs(p \<mapsto> Dir (dir_mode h)))"
  using assms by (auto simp: os_mkdir_def split: option.splits if_splits)

lemma os_mkdir_added: "os_mkdir h p fs = (r, fs') \<Longrightarrow> dirs_added {p} fs fs'"
  by (drule os_mkdir_cases) (auto simp: dirs_added_def split: if_splits)

lemma os_mkdir_wf:
  assumes "os_mkdir h p fs = (r, fs')" and "wf_fs fs"
  shows "wf_fs fs'"
proof -
  from os_mkdir_cases [OF assms(1)] show ?thesis
  proof
    assume "r \<noteq> None \<and> fs' = fs"
    with assms(2) show ?thesis by simp
  next
    assume c: "r = None \<and> fs p = None \<and> resolve fs p = None \<and> fs' = fs(p \<mapsto> Dir (dir_mode h))"
    from c assms(2) have "p \<noteq> []"
      by (auto simp: wf_fs_def is_dir_Some)
    with c have "is_dir fs (parent p)"
      by (auto simp: resolve_None intro: parent_strict)
    then have par: "is_dir fs' (parent p)"
      using c by simp
    show ?thesis
    proof (rule dirs_added_wf [OF os_mkdir_added [OF assms(1)] assms(2)])
      fix q assume "fs q = None" and "fs' q \<noteq> None"
      with c have "q = p"
        by (auto split: if_splits)
      with par show "is_dir fs' (parent q)" by simp
    qed
  qed
qed

lemma mkdir_flat_state: "mkdir_flat h p ok fs = (r, fs') \<Longrightarrow> fs' = snd (os_mkdir h p fs)"
  by (auto simp: mkdir_flat_def split: prod.splits option.splits if_splits sum.splits)

lemma mkdir_flat_added: "mkdir_flat h p ok fs = (r, fs') \<Longrightarrow> dirs_added {p} fs fs'"
  using os_mkdir_added [of h p fs "fst (os_mkdir h p fs)" "snd (os_mkdir h p fs)"]
  by (auto dest: mkdir_flat_state)

lemma mkdir_flat_wf: "mkdir_flat h p ok fs = (r, fs') \<Longrightarrow> wf_fs fs \<Longrightarrow> wf_fs fs'"
  using os_mkdir_wf [of h p fs "fst (os_mkdir h p fs)" "snd (os_mkdir h p fs)"]
  by (auto dest: mkdir_flat_state)

lemma os_mkdir_is_dir: "os_mkdir h p fs = (None, fs') \<Longrightarrow> is_dir fs' p"
  by (drule os_mkdir_cases) auto

lemma mkdir_flat_is_dir: "mkdir_flat h p True fs = (None, fs') \<Longrightarrow> is_dir fs' p"
  by (auto simp: mkdir_flat_def split: prod.splits option.splits if_splits sum.splits
      dest: os_mkdir_is_dir path_is_dir_True)

lemma mkdir_parents_added:
  "mkdir_parents h p fs = (r, fs') \<Longrightarrow> dirs_added {q. prefix q p} fs fs'"
proof (induction h p fs arbitrary: r fs' rule: mkdir_parents.induct)
  case (1 h p fs)
  obtain r0 fs0 where os: "os_mkdir h p fs = (r0, fs0)"
    by (cases "os_mkdir h p fs")
  have a0: "dirs_added {q. prefix q p} fs fs0"
    by (rule dirs_added_mono [OF os_mkdir_added [OF os]]) simp
  show ?case
  proof (cases "r0 = Some FileNotFoundError \<and> parent p \<noteq> p")
    case False
    with "1.prems" os have "fs' = fs0"
      by (subst (asm) mkdir_parents.simps) (auto split: option.splits if_splits sum.splits)
    with a0 show ?thesis by simp
  next
    case True
    obtain r1 fs1 where rec: "mkdir_parents h (parent p) fs0 = (r1, fs1)"
      by (cases "mkdir_parents h (parent p) fs0")
    from True os have "dirs_added {q. prefix q (parent p)} fs0 fs1"
      by (intro "1.IH" [OF os [symmetric] _ _ _ rec]) auto
    then have a1: "dirs_added {q. prefix q p} fs0 fs1"
      by (rule dirs_added_mono) (auto simp: parent_def intro: prefix_order.trans prefixeq_butlast)
    show ?thesis
    proof (cases r1)
      case (Some e)
      with "1.prems" os True rec have "fs' = fs1"
        by (subst (asm) mkdir_parents.simps) auto
      with a0 a1 show ?thesis
        by (auto intro: dirs_added_trans)
    next
      case None
      with "1.prems" os True rec have "mkdir_flat h p True fs1 = (r, fs')"
        by (subst (asm) mkdir_parents.simps) auto
      then have "dirs_added {q. prefix q p} fs1 fs'"
        by (intro dirs_added_mono [OF mkdir_flat_added]) auto
      with a0 a1 show ?thesis
        by (auto intro: dirs_added_trans)
    qed
  qed
qed

lemma mkdir_parents_wf: "mkdir_parents h p fs = (r, fs') \<Longrightarrow> wf_fs fs \<Longrightarrow> wf_fs fs'"
proof (induction h p fs arbitrary: r fs' rule: mkdir_parents.induct)
  case (1 h p fs)
  obtain r0 fs0 where os: "os_mkdir h p fs = (r0, fs0)"
    by (cases "os_mkdir h p fs")
  have w0: "wf_fs fs0"
    by (rule os_mkdir_wf [OF os "1.prems"(2)])
  show ?case
  proof (cases "r0 = Some FileNotFoundError \<and> parent p \<noteq> p")
    case False
    with "1.prems" os have "fs' = fs0"
      by (subst (asm) mkdir_parents.simps) (auto split: option.splits if_splits sum.splits)
    with w0 show ?thesis by simp
  next
    case True
    obtain r1 fs1 where rec: "mkdir_parents h (parent p) fs0 = (r1, fs1)"
      by (cases "mkdir_parents h (parent p) fs0")
    from True os have w1: "wf_fs fs1"
      by (intro "1.IH" [OF os [symmetric] _ _ _ rec w0]) auto
    show ?thesis
    proof (cases r1)
      case (Some e)
      with "1.prems" os True rec have "fs' = fs1"
        by (subst (asm) mkdir_parents.simps) auto
      with w1 show ?thesis by simp
    next
      case None
      with "1.prems" os True rec have "mkdir_flat h p True fs1 = (r, fs')"
        by (subst (asm) mkdir_parents.simps) auto
      with w1 show ?thesis
        by (auto dest: mkdir_flat_wf)
    qed
  qed
qed

lemma mkdir_parents_is_dir: "mkdir_parents h p fs = (None, fs') \<Longrightarrow> is_dir fs' p"
  by (subst (asm) mkdir_parents.simps)
     (auto split: prod.splits option.splits if_splits sum.splits
           dest: os_mkdir_is_dir mkdir_flat_is_dir path_is_dir_True)

subsection \<open>Writing a file\<close>

lemma mkdir_parents_existing:
  assumes "mkdir_fault h p = None" and "stat_fault h p = None" and "wf_fs fs" and "is_dir fs p"
  shows "mkdir_parents h p fs = (None, fs)"
proof -
  from assms(4) have ex: "fs p \<noteq> None"
    by (auto simp: is_dir_Some)
  with assms(3) have "resolve fs p = None"
    by (rule wf_resolve)
  with assms(1) ex have "os_mkdir h p fs = (Some FileExistsError, fs)"
    by (auto simp: os_mkdir_def)
  with assms(4) path_is_dir_wf [OF assms(2,3)] show ?thesis
    by (subst mkdir_parents.simps) simp
qed

lemma mkdir_flat_ok:
  assumes "mkdir_fault h p = None" and "stat_fault h p = None" and "resolve fs p = None"
    and "\<not> is_file fs p"
  shows "fst (mkdir_flat h p True fs) = None"
proof (cases "fs p = None")
  case True
  with assms(1,3) show ?thesis
    by (simp add: mkdir_flat_def os_mkdir_def)
next
  case False
  with assms(4) have "is_dir fs p"
    using not_dir_not_file by blast
  with assms(1,2,3) False show ?thesis
    by (auto simp: mkdir_flat_def os_mkdir_def path_is_dir_def)
qed

lemma mkdir_parents_ok:
  assumes "\<forall>q. prefix q p \<longrightarrow> mkdir_fault h q = None \<and> stat_fault h q = None"
    and "wf_fs fs" and "\<forall>q. prefix q p \<longrightarrow> \<not> is_file fs q"
  shows "fst (mkdir_parents h p fs) = None"
  using assms
proof (induction p arbitrary: fs rule: rev_induct)
  case Nil
  then have "is_dir fs []"
    by (simp add: wf_fs_def)
  with Nil show ?case
    by (simp add: mkdir_parents_existing)
next
  case (snoc c d)
  let ?p = "d @ [c]"
  have nofault: "mkdir_fault h ?p = None" and nostat: "stat_fault h ?p = None"
    using snoc.prems(1) by simp_all
  have notfile: "\<not> is_file fs ?p"
    using snoc.prems(3) by simp
  show ?case
  proof (cases "resolve fs ?p")
    case None
    show ?thesis
    proof (cases "fs ?p = None")
      case True
      with None nofault show ?thesis
        by (subst mkdir_parents.simps) (simp add: os_mkdir_def)
    next
      case False
      with notfile have "is_dir fs ?p"
        using not_dir_not_file by blast
      with None nofault nostat False show ?thesis
        by (subst mkdir_parents.simps) (simp add: os_mkdir_def path_is_dir_def)
    qed
  next
    case (Some e)
    from resolve_Some [OF Some] snoc.prems(3) have e: "e = FileNotFoundError"
      by (auto simp: strict_prefix_def)
    with Some nofault have os: "os_mkdir h ?p fs = (Some FileNotFoundError, fs)"
      by (simp add: os_mkdir_def)
    have par: "parent ?p = d" "parent ?p \<noteq> ?p"
      by (simp_all add: parent_def)
    obtain r1 fs1 where rec: "mkdir_parents h d fs = (r1, fs1)"
      by (cases "mkdir_parents h d fs")
    from snoc.prems(3) have nf: "\<forall>q. prefix q d \<longrightarrow> \<not> is_file fs q"
      by simp
    from snoc.prems(1) have "\<forall>q. prefix q d \<longrightarrow> mkdir_fault h q = None \<and> stat_fault h q = None"
      by simp
    from snoc.IH [OF this snoc.prems(2) nf] rec have r1: "r1 = None"
      by simp
    from rec r1 have d: "is_dir fs1 d"
      by (auto dest: mkdir_parents_is_dir)
    have w1: "wf_fs fs1"
      by (rule mkdir_parents_wf [OF rec snoc.prems(2)])
    have "is_dir fs1 q" if "strict_prefix q ?p" for q
      using that wf_prefix_of_dir [OF w1 d, of q] by (auto simp: strict_prefix_def)
    then have res1: "resolve fs1 ?p = None"
      by (simp add: resolve_None)
    have "fs1 ?p = fs ?p"
      by (rule dirs_added_outside [OF mkdir_parents_added [OF rec]]) simp
    with notfile have "\<not> is_file fs1 ?p"
      by (simp add: is_file_def)
    from mkdir_flat_ok [OF nofault nostat res1 this] os rec r1 par show ?thesis
      by (subst mkdir_parents.simps) simp
  qed
qed

lemma write_text_cases:
  assumes "write_text h p c fs = (r, fs')"
  shows "fs' = fs \<or>
         (\<not> is_dir fs p \<and> resolve fs p = None \<and> (\<exists>c' m. fs' = fs(p \<mapsto> File c' m)))"
  using assms
  by (auto simp: write_text_def Let_def is_dir_def split: option.splits node.splits)

lemma write_text_done:
  "write_text h p c fs = (None, fs') \<Longrightarrow> content_at fs' p = Some c"
  by (auto simp: write_text_def Let_def content_at_def split: option.splits node.splits)

lemma write_text_ok:
  assumes "open_fault h p = None" and "write_fault h p = None"
    and "resolve fs p = None" and "\<not> is_dir fs p"
  shows "fst (write_text h p c fs) = None"
  using assms by (auto simp: write_text_def Let_def is_dir_def split: option.splits node.splits)

lemma write_text_wf:
  assumes "write_text h p c fs = (r, fs')" and "wf_fs fs"
  shows "wf_fs fs'"
proof -
  from write_text_cases [OF assms(1)] show ?thesis
  proof
    assume "fs' = fs"
    with assms(2) show ?thesis by simp
  next
    assume a: "\<not> is_dir fs p \<and> resolve fs p = None \<and> (\<exists>c' m. fs' = fs(p \<mapsto> File c' m))"
    then obtain c' m where fs': "fs' = fs(p \<mapsto> File c' m)"
      by blast
    from a assms(2) have ne: "p \<noteq> []"
      by (auto simp: wf_fs_def)
    with a have par: "is_dir fs (parent p)"
      by (auto simp: resolve_None intro: parent_strict)
    show ?thesis
      unfolding wf_fs_def
    proof (intro conjI allI impI)
      from assms(2) ne show "is_dir fs' []"
        by (simp add: fs' wf_fs_def)
    next
      fix q assume q: "fs' q \<noteq> None"
      show "is_dir fs' (parent q)"
      proof (cases "q = p")
        case True
        with par ne show ?thesis
          by (auto simp: fs' parent_fix)
      next
        case False
        with q have "fs q \<noteq> None"
          by (simp add: fs')
        with assms(2) have "is_dir fs (parent q)"
          by (simp add: wf_fs_def)
        with a show ?thesis
          by (auto simp: fs')
      qed
    qed
  qed
qed

lemma writer_fault_free_clear: "writer_fault_free h \<Longrightarrow> writer_clear_at h p"
  by (simp add: writer_fault_free_def writer_clear_at_def)

lemma write_file_split:
  assumes "write_file h p c ov fs = (r, fs')"
  obtains (mkdir_failed) r1 where "mkdir_parents h (parent p) fs = (Some r1, fs')" "r = Some r1"
  | (stat_failed) e where "mkdir_parents h (parent p) fs = (None, fs')" "stat_fault h p = Some e"
      "r = Some e"
  | (skipped) "mkdir_parents h (parent p) fs = (None, fs')" "fs' p \<noteq> None" "\<not> ov" "r = None"
  | (written) fs1 where "mkdir_parents h (parent p) fs = (None, fs1)"
      "ov \<or> fs1 p = None \<or> resolve fs1 p \<noteq> None" "write_text h p c fs1 = (r, fs')"
  using assms
  by (auto simp: write_file_def ensure_parent_dir_def path_exists_def
      split: prod.splits option.splits if_splits sum.splits)

lemma write_file_changed:
  assumes "write_file h p c ov fs = (r, fs')" and "fs q \<noteq> None" and "fs' q \<noteq> fs q"
  shows "q = p \<and> ov \<and> is_file fs q \<and> is_file fs' q"
  using assms(1)
proof (cases rule: write_file_split)
  case (mkdir_failed r1)
  from dirs_added_existing [OF mkdir_parents_added [OF this(1)] assms(2)] assms(3)
  show ?thesis by simp
next
  case (stat_failed e)
  from dirs_added_existing [OF mkdir_parents_added [OF this(1)] assms(2)] assms(3)
  show ?thesis by simp
next
  case skipped
  from dirs_added_existing [OF mkdir_parents_added [OF this(1)] assms(2)] assms(3)
  show ?thesis by simp
next
  case (written fs1)
  have same: "fs1 q = fs q"
    by (rule dirs_added_existing [OF mkdir_parents_added [OF written(1)] assms(2)])
  from write_text_cases [OF written(3)] assms(3) same
  obtain c' m where w: "\<not> is_dir fs1 p" "resolve fs1 p = None" "fs' = fs1(p \<mapsto> File c' m)"
    by auto
  with assms(3) same have qp: "q = p"
    by (auto split: if_splits)
  with w same assms(2) have "is_file fs q"
    by (auto intro: not_dir_not_file simp: is_dir_def)
  moreover from written(2) w(2) same assms(2) qp have ov
    by auto
  ultimately show ?thesis
    using qp w by simp
qed

lemma write_file_new:
  assumes "write_file h p c ov fs = (r, fs')" and "fs q = None" and "fs' q \<noteq> None"
  shows "(is_dir fs' q \<and> prefix q (parent p)) \<or> (q = p \<and> is_file fs' q)"
  using assms(1)
proof (cases rule: write_file_split)
  case (mkdir_failed r1)
  from dirs_added_new [OF mkdir_parents_added [OF this(1)] assms(2,3)] show ?thesis
    by simp
next
  case (stat_failed e)
  from dirs_added_new [OF mkdir_parents_added [OF this(1)] assms(2,3)] show ?thesis
    by simp
next
  case skipped
  from dirs_added_new [OF mkdir_parents_added [OF this(1)] assms(2,3)] show ?thesis
    by simp
next
  case (written fs1)
  from dirs_added_new [OF mkdir_parents_added [OF written(1)] assms(2)]
  have q1: "fs1 q = None \<or> (is_dir fs1 q \<and> prefix q (parent p))"
    by auto
  from write_text_cases [OF written(3)] show ?thesis
  proof
    assume "fs' = fs1"
    with q1 assms(3) show ?thesis by auto
  next
    assume "\<not> is_dir fs1 p \<and> resolve fs1 p = None \<and> (\<exists>c' m. fs' = fs1(p \<mapsto> File c' m))"
    then obtain c' m where w: "\<not> is_dir fs1 p" "fs' = fs1(p \<mapsto> File c' m)"
      by blast
    with q1 assms(3) show ?thesis
      by (cases "q = p") auto
  qed
qed

lemma write_file_written:
  assumes "write_file h p c ov fs = (None, fs')" and "ov \<or> fs p = None" and "p \<noteq> []"
  shows "content_at fs' p = Some c"
  using assms(1)
proof (cases rule: write_file_split)
  case skipped
  have "\<not> prefix p (parent p)"
    using parent_strict [OF assms(3)] by (auto simp: strict_prefix_def)
  then have "fs' p = fs p"
    by (intro dirs_added_outside [OF mkdir_parents_added [OF skipped(1)]]) simp
  with skipped assms(2) show ?thesis by simp
next
  case (written fs1)
  then show ?thesis
    by (auto dest: write_text_done)
qed simp_all

lemma write_file_wf: "write_file h p c ov fs = (r, fs') \<Longrightarrow> wf_fs fs \<Longrightarrow> wf_fs fs'"
  by (erule write_file_split) (auto dest: mkdir_parents_wf write_text_wf)

lemma write_file_ok:
  assumes "writer_clear_at h p" and "wf_fs fs" and "p \<noteq> []"
    and "\<forall>q. strict_prefix q p \<longrightarrow> \<not> is_file fs q" and "ov \<longrightarrow> \<not> is_dir fs p"
  shows "fst (write_file h p c ov fs) = None"
proof -
  from assms(1) have nf: "stat_fault h p = None" "open_fault h p = None" "write_fault h p = None"
    by (simp_all add: writer_clear_at_def)
  from assms(1,3)
  have nm: "\<forall>q. prefix q (parent p) \<longrightarrow> mkdir_fault h q = None \<and> stat_fault h q = None"
    by (auto simp: writer_clear_at_def dest: prefix_parent_strict)
  obtain r1 fs1 where mk: "mkdir_parents h (parent p) fs = (r1, fs1)"
    by (cases "mkdir_parents h (parent p) fs")
  from assms(3,4) have "\<forall>q. prefix q (parent p) \<longrightarrow> \<not> is_file fs q"
    by (auto dest: prefix_parent_strict)
  from mkdir_parents_ok [OF nm assms(2) this] mk have r1: "r1 = None"
    by simp
  have w1: "wf_fs fs1"
    by (rule mkdir_parents_wf [OF mk assms(2)])
  from mk r1 have "is_dir fs1 (parent p)"
    by (auto dest: mkdir_parents_is_dir)
  then have "is_dir fs1 q" if "strict_prefix q p" for q
    using that wf_prefix_of_dir [OF w1 _ strict_prefix_parent] by blast
  then have res: "resolve fs1 p = None"
    by (simp add: resolve_None)
  have "\<not> prefix p (parent p)"
    using parent_strict [OF assms(3)] by (auto simp: strict_prefix_def)
  then have same: "fs1 p = fs p"
    by (intro dirs_added_outside [OF mkdir_parents_added [OF mk]]) simp
  have ex: "path_exists h fs1 p = Inr (fs1 p \<noteq> None)"
    by (rule path_exists_wf [OF nf(1) w1])
  show ?thesis
  proof (cases "fs1 p \<noteq> None \<and> \<not> ov")
    case True
    with mk r1 ex show ?thesis
      by (simp add: write_file_def ensure_parent_dir_def)
  next
    case False
    have "\<not> is_dir fs1 p"
    proof (cases ov)
      case True
      with assms(5) same show ?thesis
        by (simp add: is_dir_def)
    next
      case no: False
      with False have "fs1 p = None"
        by simp
      then show ?thesis
        by (simp add: is_dir_def)
    qed
    from write_text_ok [OF nf(2,3) res this] False mk r1 ex show ?thesis
      by (auto simp: write_file_def ensure_parent_dir_def)
  qed
qed

lemma write_file_skip:
  assumes "mkdir_fault h (parent p) = None" and "stat_fault h (parent p) = None"
    and "stat_fault h p = None" and "wf_fs fs" and "fs p \<noteq> None"
  shows "write_file h p c False fs = (None, fs)"
proof -
  from assms(4,5) have "is_dir fs (parent p)"
    by (simp add: wf_fs_def)
  from mkdir_parents_existing [OF assms(1,2,4) this] assms(5) path_exists_wf [OF assms(3,4)]
  show ?thesis
    by (simp add: write_file_def ensure_parent_dir_def)
qed

subsection \<open>The loop over the table\<close>

lemma targets_simps [simp]:
  "targets root [] = []"
  "targets root ((k, c) # t) = joinpath root k # targets root t"
  "targets root (t1 @ t2) = targets root t1 @ targets root t2"
  by (simp_all add: targets_def)

lemma in_targets: "(k, c) \<in> set t \<Longrightarrow> joinpath root k \<in> set (targets root t)"
  by (force simp: targets_def)

lemma write_all_changed:
  "write_all h root t ov fs = (r, fs') \<Longrightarrow> fs q \<noteq> None \<Longrightarrow> fs' q \<noteq> fs q \<Longrightarrow>
     ov \<and> is_file fs q \<and> is_file fs' q \<and> q \<in> set (targets root t)"
proof (induction t arbitrary: fs)
  case Nil
  then show ?case by simp
next
  case (Cons kc t)
  obtain k c where kc: "kc = (k, c)" by (cases kc)
  obtain r1 fs1 where wf1: "write_file h (joinpath root k) c ov fs = (r1, fs1)"
    by (cases "write_file h (joinpath root k) c ov fs")
  show ?case
  proof (cases r1)
    case (Some e)
    with Cons.prems wf1 have "fs' = fs1"
      by (simp add: kc)
    with write_file_changed [OF wf1 Cons.prems(2)] Cons.prems(3) show ?thesis
      by (auto simp: kc)
  next
    case None
    with Cons.prems wf1 have rest: "write_all h root t ov fs1 = (r, fs')"
      by (simp add: kc)
    show ?thesis
    proof (cases "fs1 q = fs q")
      case True
      with Cons.IH [OF rest] Cons.prems(2,3) show ?thesis
        by (simp add: kc is_file_def)
    next
      case False
      from write_file_changed [OF wf1 Cons.prems(2) False]
      have a: "q = joinpath root k" "ov" "is_file fs q" "is_file fs1 q"
        by blast+
      have "is_file fs' q"
      proof (cases "fs' q = fs1 q")
        case True
        with a show ?thesis by (simp add: is_file_def)
      next
        case False
        from a(4) have "fs1 q \<noteq> None"
          by (auto simp: is_file_Some)
        from Cons.IH [OF rest this False] show ?thesis by simp
      qed
      with a show ?thesis
        by (simp add: kc)
    qed
  qed
qed

lemma write_all_new:
  "write_all h root t ov fs = (r, fs') \<Longrightarrow> fs q = None \<Longrightarrow> fs' q \<noteq> None \<Longrightarrow>
     (is_dir fs' q \<and> (\<exists>p \<in> set (targets root t). prefix q (parent p))) \<or>
     (q \<in> set (targets root t) \<and> is_file fs' q)"
proof (induction t arbitrary: fs)
  case Nil
  then show ?case by simp
next
  case (Cons kc t)
  obtain k c where kc: "kc = (k, c)" by (cases kc)
  obtain r1 fs1 where wf1: "write_file h (joinpath root k) c ov fs = (r1, fs1)"
    by (cases "write_file h (joinpath root k) c ov fs")
  have stays: "(is_dir fs1 q \<longrightarrow> is_dir fs' q) \<and> (is_file fs1 q \<longrightarrow> is_file fs' q)"
    if "fs1 q \<noteq> None" and "write_all h root t ov fs1 = (r, fs')"
  proof (cases "fs' q = fs1 q")
    case True
    then show ?thesis by (simp add: is_dir_def is_file_def)
  next
    case False
    from write_all_changed [OF that(2,1) False] have "is_file fs1 q" "is_file fs' q"
      by simp_all
    then show ?thesis
      using dir_not_file by blast
  qed
  show ?case
  proof (cases r1)
    case (Some e)
    with Cons.prems wf1 have "fs' = fs1"
      by (simp add: kc)
    with write_file_new [OF wf1 Cons.prems(2)] Cons.prems(3) show ?thesis
      by (auto simp: kc)
  next
    case None
    with Cons.prems wf1 have rest: "write_all h root t ov fs1 = (r, fs')"
      by (simp add: kc)
    show ?thesis
    proof (cases "fs1 q = None")
      case True
      from Cons.IH [OF rest True Cons.prems(3)] show ?thesis
        by (auto simp: kc)
    next
      case False
      from write_file_new [OF wf1 Cons.prems(2) False] stays [OF False rest] show ?thesis
        by (auto simp: kc)
    qed
  qed
qed

lemma write_all_wf: "write_all h root t ov fs = (r, fs') \<Longrightarrow> wf_fs fs \<Longrightarrow> wf_fs fs'"
proof (induction t arbitrary: fs)
  case Nil
  then show ?case by simp
next
  case (Cons kc t)
  obtain k c where kc: "kc = (k, c)" by (cases kc)
  obtain r1 fs1 where wf1: "write_file h (joinpath root k) c ov fs = (r1, fs1)"
    by (cases "write_file h (joinpath root k) c ov fs")
  have w1: "wf_fs fs1"
    by (rule write_file_wf [OF wf1 Cons.prems(2)])
  from Cons.prems(1) wf1 w1 Cons.IH [OF _ w1] show ?case
    by (cases r1) (auto simp: kc)
qed

lemma write_all_append:
  "write_all h root (t1 @ t2) ov fs =
     (case write_all h root t1 ov fs of
        (Some e, fs1) \<Rightarrow> (Some e, fs1)
      | (None, fs1) \<Rightarrow> write_all h root t2 ov fs1)"
  by (induction t1 arbitrary: fs) (auto split: prod.splits option.splits)

lemma write_all_skip:
  assumes "mkdir_fault h = (\<lambda>_. None)" and "stat_fault h = (\<lambda>_. None)" and "wf_fs fs"
    and "\<forall>p \<in> set (targets root t). fs p \<noteq> None"
  shows "write_all h root t False fs = (None, fs)"
  using assms(4)
proof (induction t)
  case Nil
  then show ?case by simp
next
  case (Cons kc t)
  obtain k c where kc: "kc = (k, c)" by (cases kc)
  from Cons.prems have "fs (joinpath root k) \<noteq> None"
    by (simp add: kc)
  then have "write_file h (joinpath root k) c False fs = (None, fs)"
    by (intro write_file_skip assms(3)) (simp_all add: assms(1,2))
  with Cons show ?case
    by (simp add: kc)
qed

lemma prefix_free_Cons:
  "prefix_free (p # ps) \<longleftrightarrow>
     prefix_free ps \<and> (\<forall>q \<in> set ps. \<not> prefix p q \<and> \<not> prefix q p)"
  using prefix_free_append [of "[p]" ps] by auto

lemma write_all_written:
  assumes "write_all h root t ov fs = (None, fs')" and "prefix_free (targets root t)"
    and "[] \<notin> set (targets root t)" and "(k, c) \<in> set t"
    and "ov \<or> fs (joinpath root k) = None"
  shows "content_at fs' (joinpath root k) = Some c"
  using assms
proof (induction t arbitrary: fs)
  case Nil
  then show ?case by simp
next
  case (Cons kc t)
  obtain k0 c0 where kc: "kc = (k0, c0)" by (cases kc)
  let ?a = "joinpath root k0" and ?b = "joinpath root k"
  obtain r1 fs1 where w1: "write_file h ?a c0 ov fs = (r1, fs1)"
    by (cases "write_file h ?a c0 ov fs")
  from Cons.prems(1) w1 have r1: "r1 = None" and rest: "write_all h root t ov fs1 = (None, fs')"
    by (auto simp: kc split: option.splits)
  from Cons.prems(2) have pf: "prefix_free (targets root t)"
    and apart: "\<forall>q \<in> set (targets root t). \<not> prefix ?a q \<and> \<not> prefix q ?a"
    by (simp_all add: kc prefix_free_Cons)
  from Cons.prems(3) have ne: "?a \<noteq> []" "[] \<notin> set (targets root t)"
    by (auto simp: kc)
  from Cons.prems(4) consider "(k, c) = (k0, c0)" | "(k, c) \<in> set t"
    by (auto simp: kc)
  then show ?case
  proof cases
    case 1
    with Cons.prems(5) have "ov \<or> fs ?a = None"
      by simp
    from write_file_written [OF w1 [unfolded r1] this ne(1)]
    have c1: "content_at fs1 ?a = Some c0" .
    then have ex: "fs1 ?a \<noteq> None"
      by (auto simp: content_at_def split: option.splits)
    have "fs' ?a = fs1 ?a"
    proof (rule ccontr)
      assume "fs' ?a \<noteq> fs1 ?a"
      from write_all_changed [OF rest ex this] apart show False
        by auto
    qed
    with c1 1 show ?thesis
      by (simp add: content_at_def)
  next
    case 2
    then have mem: "?b \<in> set (targets root t)"
      by (rule in_targets)
    have "ov \<or> fs1 ?b = None"
    proof (cases ov)
      case True
      then show ?thesis by simp
    next
      case False
      with Cons.prems(5) have none: "fs ?b = None"
        by simp
      have "fs1 ?b = None"
      proof (rule ccontr)
        assume "fs1 ?b \<noteq> None"
        from write_file_new [OF w1 none this] apart mem ne(1) show False
          by (auto dest: prefix_parent_strict simp: strict_prefix_def)
      qed
      then show ?thesis by simp
    qed
    from Cons.IH [OF rest pf ne(2) 2 this] show ?thesis .
  qed
qed

lemma write_all_clear:
  assumes "\<forall>p \<in> set (targets root t). writer_clear_at h p"
    and "wf_fs fs" and "prefix_free (targets root t)"
    and "[] \<notin> set (targets root t)"
    and "\<forall>p \<in> set (targets root t). \<forall>q. strict_prefix q p \<longrightarrow> \<not> is_file fs q"
    and "ov \<longrightarrow> (\<forall>p \<in> set (targets root t). \<not> is_dir fs p)"
  shows "fst (write_all h root t ov fs) = None"
  using assms
proof (induction t arbitrary: fs)
  case Nil
  then show ?case by simp
next
  case (Cons kc t)
  obtain k0 c0 where kc: "kc = (k0, c0)" by (cases kc)
  let ?a = "joinpath root k0"
  obtain r1 fs1 where w1: "write_file h ?a c0 ov fs = (r1, fs1)"
    by (cases "write_file h ?a c0 ov fs")
  from Cons.prems(3) have pf: "prefix_free (targets root t)"
    and apart: "\<forall>q \<in> set (targets root t). \<not> prefix ?a q \<and> \<not> prefix q ?a"
    by (simp_all add: kc prefix_free_Cons)
  from Cons.prems(4) have ne: "?a \<noteq> []" "[] \<notin> set (targets root t)"
    by (auto simp: kc)
  from Cons.prems(1) have cl: "writer_clear_at h ?a" "\<forall>p \<in> set (targets root t). writer_clear_at h p"
    by (simp_all add: kc)
  from Cons.prems(5,6) have "\<forall>q. strict_prefix q ?a \<longrightarrow> \<not> is_file fs q" "ov \<longrightarrow> \<not> is_dir fs ?a"
    by (simp_all add: kc)
  from write_file_ok [where c = c0, OF cl(1) Cons.prems(2) ne(1) this] w1 have r1: "r1 = None"
    by simp
  have w: "wf_fs fs1"
    by (rule write_file_wf [OF w1 Cons.prems(2)])
  have unblocked: "\<not> is_file fs1 q" if "p \<in> set (targets root t)" and "strict_prefix q p" for p q
  proof
    assume f1: "is_file fs1 q"
    from that apart have qp0: "q \<noteq> ?a"
      by (auto simp: strict_prefix_def)
    show False
    proof (cases "fs q = None")
      case True
      from f1 have "fs1 q \<noteq> None"
        by (auto simp: is_file_Some)
      from write_file_new [OF w1 True this] qp0 f1 show False
        by (auto dest: dir_not_file)
    next
      case False
      have "fs1 q = fs q"
        using write_file_changed [OF w1 False] qp0 by blast
      with f1 have "is_file fs q"
        by (simp add: is_file_def)
      with Cons.prems(5) that show False
        by (auto simp: kc)
    qed
  qed
  have nodir: "\<not> is_dir fs1 p" if ov and "p \<in> set (targets root t)" for p
  proof
    assume d1: "is_dir fs1 p"
    from that apart have pp0: "p \<noteq> ?a"
      by auto
    show False
    proof (cases "fs p = None")
      case True
      from d1 have "fs1 p \<noteq> None"
        by (auto simp: is_dir_Some)
      from write_file_new [OF w1 True this] pp0 have "prefix p (parent ?a)"
        by simp
      with ne(1) apart that(2) show False
        by (auto dest: prefix_parent_strict simp: strict_prefix_def)
    next
      case False
      have "fs1 p = fs p"
        using write_file_changed [OF w1 False] pp0 by blast
      with d1 have "is_dir fs p"
        by (simp add: is_dir_def)
      with Cons.prems(6) that show False
        by (auto simp: kc)
    qed
  qed
  from Cons.IH [OF cl(2) w pf ne(2)] unblocked nodir
  have "fst (write_all h root t ov fs1) = None"
    by blast
  with w1 r1 show ?case
    by (simp add: kc)
qed

lemma write_all_ok:
  assumes "writer_fault_free h" and "wf_fs fs" and "prefix_free (targets root t)"
    and "[] \<notin> set (targets root t)"
    and "\<forall>p \<in> set (targets root t). \<forall>q. strict_prefix q p \<longrightarrow> \<not> is_file fs q"
    and "ov \<longrightarrow> (\<forall>p \<in> set (targets root t). \<not> is_dir fs p)"
  shows "fst (write_all h root t ov fs) = None"
  by (rule write_all_clear [OF _ assms(2-)]) (simp add: writer_fault_free_clear [OF assms(1)])

subsection \<open>Permission bits\<close>

lemma modes_changed_refl [simp]: "modes_changed fs fs"
  by (simp add: modes_changed_def split: option.splits node.splits)

lemma modes_changed_at:
  "modes_changed fs fs' \<Longrightarrow>
     (case fs q of
        None \<Rightarrow> fs' q = None
      | Some (File c m) \<Rightarrow> fs' q = Some (File c m) \<or> fs' q = Some (File c 493)
      | Some (Dir m) \<Rightarrow> fs' q = Some (Dir m) \<or> fs' q = Some (Dir 493))"
  by (simp add: modes_changed_def)

lemma modes_changed_trans:
  assumes "modes_changed fs fs1" and "modes_changed fs1 fs2"
  shows "modes_changed fs fs2"
  unfolding modes_changed_def
proof
  fix q
  from modes_changed_at [OF assms(1), of q] modes_changed_at [OF assms(2), of q]
  show "case fs q of
            None \<Rightarrow> fs2 q = None
          | Some (File c m) \<Rightarrow> fs2 q = Some (File c m) \<or> fs2 q = Some (File c 493)
          | Some (Dir m) \<Rightarrow> fs2 q = Some (Dir m) \<or> fs2 q = Some (Dir 493)"
    by (auto split: option.splits node.splits)
qed

lemma modes_changed_content: "modes_changed fs fs' \<Longrightarrow> content_at fs' q = content_at fs q"
  by (drule modes_changed_at [of _ _ q]) (auto simp: content_at_def split: option.splits node.splits)

lemma modes_changed_is_dir: "modes_changed fs fs' \<Longrightarrow> is_dir fs' q = is_dir fs q"
  by (drule modes_changed_at [of _ _ q]) (auto simp: is_dir_def split: option.splits node.splits)

lemma modes_changed_exists: "modes_changed fs fs' \<Longrightarrow> (fs' q = None) = (fs q = None)"
  by (drule modes_changed_at [of _ _ q]) (auto split: option.splits node.splits)

lemma modes_changed_resolve: "modes_changed fs fs' \<Longrightarrow> resolve fs' p = resolve fs p"
  by (simp add: resolve_def modes_changed_is_dir modes_changed_exists cong: option.case_cong)

lemma modes_changed_wf: "modes_changed fs fs' \<Longrightarrow> wf_fs fs \<Longrightarrow> wf_fs fs'"
  by (simp add: wf_fs_def modes_changed_is_dir modes_changed_exists)

lemma modes_changed_keeps: "modes_changed fs fs' \<Longrightarrow> mode_at fs q = Some 493 \<Longrightarrow> mode_at fs' q = Some 493"
  by (drule modes_changed_at [of _ _ q]) (auto simp: mode_at_def split: option.splits node.splits)

lemma path_chmod_cases:
  assumes "path_chmod h p 493 fs = (r, fs')"
  shows "(r \<noteq> None \<and> fs' = fs) \<or>
         (r = None \<and> chmod_fault h p = None \<and> resolve fs p = None \<and>
            ((\<exists>c m. fs p = Some (File c m) \<and> fs' = fs(p \<mapsto> File c 493)) \<or>
             (\<exists>m. fs p = Some (Dir m) \<and> fs' = fs(p \<mapsto> Dir 493))))"
  using assms by (auto simp: path_chmod_def split: option.splits node.splits)

lemma path_chmod_modes: "path_chmod h p 493 fs = (r, fs') \<Longrightarrow> modes_changed fs fs'"
  by (drule path_chmod_cases) (auto simp: modes_changed_def split: option.splits node.splits)

lemma path_chmod_ok:
  assumes "chmod_fault h p = None" and "resolve fs p = None" and "fs p \<noteq> None"
    and "path_chmod h p 493 fs = (r, fs')"
  shows "mode_at fs' p = Some 493"
  using assms by (auto simp: path_chmod_def mode_at_def split: option.splits node.splits)

lemma first_stat_error_None:
  "first_stat_error h root relpaths = None \<longleftrightarrow>
     (\<forall>rp \<in> set relpaths. stat_fault h (joinpath root rp) = None)"
  by (induction relpaths) (auto split: option.splits)

lemma first_stat_error_chmod [simp]:
  "first_stat_error (h\<lparr>chmod_fault := f\<rparr>) root relpaths = first_stat_error h root relpaths"
  by (induction relpaths) (simp_all split: option.splits)

lemma chmod_result: "fst (chmod_executables h root relpaths fs) = first_stat_error h root relpaths"
  by (induction relpaths arbitrary: fs)
     (auto simp: Let_def path_exists_def split: prod.splits option.splits sum.splits)

lemma chmod_modes: "modes_changed fs (snd (chmod_executables h root relpaths fs))"
proof (induction relpaths arbitrary: fs)
  case Nil
  then show ?case by simp
next
  case (Cons rp relpaths)
  obtain r1 fs1 where c1: "path_chmod h (joinpath root rp) 493 fs = (r1, fs1)"
    by (cases "path_chmod h (joinpath root rp) 493 fs")
  from modes_changed_trans [OF path_chmod_modes [OF c1] Cons [of fs1]] Cons [of fs] c1
  show ?case
    by (cases r1) (simp_all add: Let_def split: sum.splits)
qed

lemma chmod_due_modes: "modes_changed fs fs' \<Longrightarrow> chmod_due h fs' p = chmod_due h fs p"
  by (simp add: chmod_due_def modes_changed_exists modes_changed_resolve)

lemma chmod_post:
  assumes "rp \<in> set relpaths" and "chmod_due h fs (joinpath root rp)"
    and "first_stat_error h root relpaths = None"
  shows "mode_at (snd (chmod_executables h root relpaths fs)) (joinpath root rp) = Some 493"
  using assms
proof (induction relpaths arbitrary: fs)
  case Nil
  then show ?case by simp
next
  case (Cons rp0 relpaths)
  let ?a = "joinpath root rp0"
  obtain r1 fs1 where c1: "path_chmod h ?a 493 fs = (r1, fs1)"
    by (cases "path_chmod h ?a 493 fs")
  have m1: "modes_changed fs fs1"
    by (rule path_chmod_modes [OF c1])
  from Cons.prems(3) have st: "stat_fault h ?a = None" "first_stat_error h root relpaths = None"
    by (simp_all split: option.splits)
  show ?case
  proof (cases "resolve fs ?a = None \<and> fs ?a \<noteq> None")
    case False
    with Cons.prems have "rp \<in> set relpaths"
      by (auto simp: chmod_due_def)
    with Cons.IH [OF _ Cons.prems(2) st(2)] False st(1) show ?thesis
      by (auto simp: Let_def path_exists_def)
  next
    case True
    then have run: "chmod_executables h root (rp0 # relpaths) fs =
        chmod_executables h root relpaths fs1"
      using c1 st(1) by (cases r1) (simp_all add: Let_def path_exists_def)
    show ?thesis
    proof (cases "rp \<in> set relpaths")
      case True
      from Cons.IH [OF True _ st(2), of fs1] Cons.prems(2) m1 show ?thesis
        unfolding run by (simp add: chmod_due_modes)
    next
      case False
      with Cons.prems(1) have "rp = rp0"
        by simp
      with Cons.prems(2) c1 have "mode_at fs1 ?a = Some 493"
        by (auto simp: chmod_due_def intro: path_chmod_ok)
      from modes_changed_keeps [OF chmod_modes this] show ?thesis
        unfolding run \<open>rp = rp0\<close> .
    qed
  qed
qed

lemma chmod_fix:
  assumes "\<forall>rp \<in> set relpaths. chmod_due h fs (joinpath root rp) \<longrightarrow>
             mode_at fs (joinpath root rp) = Some 493"
  shows "chmod_executables h root relpaths fs = (first_stat_error h root relpaths, fs)"
  using assms
proof (induction relpaths)
  case Nil
  then show ?case by simp
next
  case (Cons rp relpaths)
  let ?a = "joinpath root rp"
  obtain r1 fs1 where c1: "path_chmod h ?a 493 fs = (r1, fs1)"
    by (cases "path_chmod h ?a 493 fs")
  have "fs1 = fs"
  proof -
    from path_chmod_cases [OF c1] show ?thesis
    proof
      assume "r1 \<noteq> None \<and> fs1 = fs"
      then show ?thesis by simp
    next
      assume a: "r1 = None \<and> chmod_fault h ?a = None \<and> resolve fs ?a = None \<and>
            ((\<exists>c m. fs ?a = Some (File c m) \<and> fs1 = fs(?a \<mapsto> File c 493)) \<or>
             (\<exists>m. fs ?a = Some (Dir m) \<and> fs1 = fs(?a \<mapsto> Dir 493)))"
      then have "chmod_due h fs ?a"
        by (auto simp: chmod_due_def)
      with Cons.prems have "mode_at fs ?a = Some 493"
        by simp
      with a show ?thesis
        by (auto simp: mode_at_def fun_upd_idem_iff)
    qed
  qed
  with Cons c1 show ?case
    by (cases r1) (simp_all add: Let_def path_exists_def split: option.splits)
qed

lemma chmod_idem:
  assumes "first_stat_error h root relpaths = None"
  shows "chmod_executables h root relpaths (snd (chmod_executables h root relpaths fs)) =
     (None, snd (chmod_executables h root relpaths fs))"
proof -
  let ?fs' = "snd (chmod_executables h root relpaths fs)"
  have "\<forall>rp \<in> set relpaths. chmod_due h ?fs' (joinpath root rp) \<longrightarrow>
          mode_at ?fs' (joinpath root rp) = Some 493"
    by (simp add: chmod_post [OF _ _ assms] chmod_due_modes [OF chmod_modes])
  from chmod_fix [OF this] assms show ?thesis
    by simp
qed

subsection \<open>The whole run\<close>

lemma prefix_free_map_append: "prefix_free ps \<Longrightarrow> prefix_free (map ((@) root) ps)"
  unfolding prefix_free_def by (auto simp: distinct_map inj_on_def)

lemma structure_joinpath:
  "(k, c) \<in> set REPO_STRUCTURE \<Longrightarrow> joinpath root k = root @ parts k"
  using keys_relative by (auto simp: REPO_STRUCTURE_eq list_all_iff joinpath_def)

lemma structure_targets:
  "targets root REPO_STRUCTURE = map ((@) root) (map (parts \<circ> fst) REPO_STRUCTURE)"
  by (auto simp: targets_def dest: structure_joinpath [of _ _ root])

lemma structure_targets_free: "prefix_free (targets root REPO_STRUCTURE)"
  unfolding structure_targets
  by (rule prefix_free_map_append) (simp add: REPO_STRUCTURE_eq key_paths_free)

lemma structure_targets_below:
  assumes "p \<in> set (targets root REPO_STRUCTURE)"
  shows "strict_prefix root p"
proof -
  from assms obtain x where x: "x \<in> set (map (parts \<circ> fst) REPO_STRUCTURE)" and p: "p = root @ x"
    unfolding structure_targets by auto
  from x key_paths_nonempty have "x \<noteq> []"
    unfolding REPO_STRUCTURE_eq by metis
  with p show ?thesis
    by (simp add: strict_prefix_def)
qed

lemma structure_targets_nonempty: "[] \<notin> set (targets root REPO_STRUCTURE)"
  using structure_targets_below [of "[]" root] by auto

lemma structure_has_target: "\<exists>p. p \<in> set (targets root REPO_STRUCTURE)"
proof -
  have "(''README.md'', ''# ASV\<newline>\<newline>Monorepo scaffold.\<newline>'') \<in> set literal_entries"
    unfolding literal_entries_def by (rule list.set_intros(1))
  then have "(''README.md'', ''# ASV\<newline>\<newline>Monorepo scaffold.\<newline>'') \<in> set REPO_STRUCTURE"
    by (simp add: REPO_STRUCTURE_eq entries_in_order_def)
  then show ?thesis
    by (blast dest: in_targets)
qed

lemma main_split:
  assumes "main h root ov fs = (r, fs')"
  obtains (root_failed) e where "mkdir_parents h root fs = (Some e, fs')" "r = Some e"
  | (write_failed) e fs0 where "mkdir_parents h root fs = (None, fs0)"
      "write_all h root REPO_STRUCTURE ov fs0 = (Some e, fs')" "r = Some e"
  | (completed) fs0 fs1 where "mkdir_parents h root fs = (None, fs0)"
      "write_all h root REPO_STRUCTURE ov fs0 = (None, fs1)"
      "fs' = snd (chmod_executables h root executables fs1)"
      "r = first_stat_error h root executables"
proof -
  obtain r0 fs0 where m: "mkdir_parents h root fs = (r0, fs0)"
    by (cases "mkdir_parents h root fs")
  obtain r1 fs1 where w: "write_all h root REPO_STRUCTURE ov fs0 = (r1, fs1)"
    by (cases "write_all h root REPO_STRUCTURE ov fs0")
  obtain r2 fs2 where c: "chmod_executables h root executables fs1 = (r2, fs2)"
    by (cases "chmod_executables h root executables fs1")
  from chmod_result [of h root executables fs1] c have "r2 = first_stat_error h root executables"
    by simp
  with assms m w c that show thesis
    by (cases r0; cases r1) (auto simp: main_def)
qed

lemma main_dirs: "is_dir fs p \<Longrightarrow> is_dir (snd (main h root ov fs)) p"
proof -
  assume d: "is_dir fs p"
  obtain r fs' where m: "main h root ov fs = (r, fs')"
    by (cases "main h root ov fs")
  have keep: "is_dir b p" if "is_dir a p" and "write_all h root REPO_STRUCTURE ov a = (x, b)" for a b x
  proof (cases "b p = a p")
    case True
    with that show ?thesis by (simp add: is_dir_def)
  next
    case False
    from that(1) have "a p \<noteq> None"
      by (auto simp: is_dir_Some)
    from write_all_changed [OF that(2) this False] that(1) show ?thesis
      by (auto dest: dir_not_file)
  qed
  from m have "is_dir fs' p"
  proof (cases rule: main_split)
    case (root_failed e)
    from dirs_added_is_dir [OF mkdir_parents_added [OF this(1)] d] show ?thesis .
  next
    case (write_failed e fs0)
    from keep [OF dirs_added_is_dir [OF mkdir_parents_added [OF this(1)] d] this(2)]
    show ?thesis .
  next
    case (completed fs0 fs1)
    from keep [OF dirs_added_is_dir [OF mkdir_parents_added [OF this(1)] d] this(2)]
    show ?thesis
      by (simp add: completed(3) modes_changed_is_dir [OF chmod_modes])
  qed
  with m show ?thesis by simp
qed

lemma main_keeps:
  assumes "content_at fs p = Some c"
  shows "content_at (snd (main h root False fs)) p = Some c"
proof -
  obtain r fs' where m: "main h root False fs = (r, fs')"
    by (cases "main h root False fs")
  from assms have ex: "fs p \<noteq> None"
    by (auto simp: content_at_def split: option.splits)
  have keep: "b p = a p" if "a p \<noteq> None" and "write_all h root REPO_STRUCTURE False a = (x, b)" for a b x
    using write_all_changed [OF that(2,1)] by blast
  from m have "content_at fs' p = Some c"
  proof (cases rule: main_split)
    case (root_failed e)
    from dirs_added_existing [OF mkdir_parents_added [OF this(1)] ex] assms show ?thesis
      by (simp add: content_at_def)
  next
    case (write_failed e fs0)
    have "fs0 p = fs p"
      by (rule dirs_added_existing [OF mkdir_parents_added [OF write_failed(1)] ex])
    with keep [OF _ write_failed(2)] ex assms show ?thesis
      by (simp add: content_at_def)
  next
    case (completed fs0 fs1)
    have "fs0 p = fs p"
      by (rule dirs_added_existing [OF mkdir_parents_added [OF completed(1)] ex])
    with keep [OF _ completed(2)] ex have "fs1 p = fs p"
      by simp
    with assms have "content_at fs1 p = Some c"
      by (simp add: content_at_def)
    then show ?thesis
      by (simp add: completed(3) modes_changed_content [OF chmod_modes])
  qed
  with m show ?thesis by simp
qed

lemma root_mkdir_outside:
  assumes "mkdir_parents h root fs = (r, fs0)" and "p \<in> set (targets root REPO_STRUCTURE)"
  shows "fs0 p = fs p"
proof (rule dirs_added_outside [OF mkdir_parents_added [OF assms(1)]])
  from structure_targets_below [OF assms(2)] show "p \<notin> {q. prefix q root}"
    by (auto simp: strict_prefix_def)
qed

lemma main_written:
  assumes "main h root ov fs = (None, fs')" and "(k, c) \<in> set REPO_STRUCTURE"
    and "ov \<or> fs (joinpath root k) = None"
  shows "content_at fs' (joinpath root k) = Some c"
  using assms(1)
proof (cases rule: main_split)
  case (completed fs0 fs1)
  have "fs0 (joinpath root k) = fs (joinpath root k)"
    by (rule root_mkdir_outside [OF completed(1) in_targets [OF assms(2)]])
  with assms(3) have "ov \<or> fs0 (joinpath root k) = None"
    by simp
  from write_all_written [OF completed(2) structure_targets_free structure_targets_nonempty assms(2) this]
  show ?thesis
    by (simp add: completed(3) modes_changed_content [OF chmod_modes])
qed simp_all

lemma main_ok:
  assumes "writer_fault_free h" and "wf_fs fs" and "unblocked fs root"
    and "ov \<longrightarrow> (\<forall>p \<in> set (targets root REPO_STRUCTURE). \<not> is_dir fs p)"
  shows "fst (main h root ov fs) = None"
proof -
  from assms(1) have nf: "\<forall>q. prefix q root \<longrightarrow> mkdir_fault h q = None \<and> stat_fault h q = None"
    and ns: "first_stat_error h root executables = None"
    by (simp_all add: writer_fault_free_def first_stat_error_None)
  obtain t where t: "t \<in> set (targets root REPO_STRUCTURE)"
    using structure_has_target by blast
  have "\<forall>q. prefix q root \<longrightarrow> \<not> is_file fs q"
    using assms(3) t structure_targets_below [OF t]
    unfolding unblocked_def by (meson prefix_order.le_less_trans)
  from mkdir_parents_ok [OF nf assms(2) this]
  obtain fs0 where m: "mkdir_parents h root fs = (None, fs0)"
    by (cases "mkdir_parents h root fs") auto
  have w0: "wf_fs fs0"
    by (rule mkdir_parents_wf [OF m assms(2)])
  have a: "\<forall>p \<in> set (targets root REPO_STRUCTURE). \<forall>q. strict_prefix q p \<longrightarrow> \<not> is_file fs0 q"
    using assms(3) dirs_added_not_file [OF mkdir_parents_added [OF m]]
    unfolding unblocked_def by blast
  have b: "ov \<longrightarrow> (\<forall>p \<in> set (targets root REPO_STRUCTURE). \<not> is_dir fs0 p)"
    using assms(4) root_mkdir_outside [OF m] by (simp add: is_dir_def)
  from write_all_ok [OF assms(1) w0 structure_targets_free structure_targets_nonempty a b]
  obtain fs1 where w: "write_all h root REPO_STRUCTURE ov fs0 = (None, fs1)"
    by (cases "write_all h root REPO_STRUCTURE ov fs0") auto
  from m w ns show ?thesis
    by (simp add: main_def chmod_result)
qed

lemma empty_root_unblocked:
  assumes "wf_fs fs" and "empty_root fs root"
  shows "unblocked fs root" and "\<forall>p \<in> set (targets root REPO_STRUCTURE). fs p = None"
proof -
  show none: "\<forall>p \<in> set (targets root REPO_STRUCTURE). fs p = None"
    using assms(2) structure_targets_below by (auto simp: empty_root_def)
  show "unblocked fs root"
    unfolding unblocked_def
  proof (intro ballI allI impI)
    fix p q assume p: "p \<in> set (targets root REPO_STRUCTURE)" and q: "strict_prefix q p"
    from structure_targets_below [OF p] q have "prefix q root \<or> strict_prefix root q"
      by (metis prefix_order.less_imp_le prefix_same_cases strict_prefix_def)
    then show "\<not> is_file fs q"
      using assms(2) by (auto simp: empty_root_def is_file_def)
  qed
qed

lemma exit_status_zero [simp]: "exit_status r = 0 \<longleftrightarrow> r = None"
  by (simp add: exit_status_def split: option.splits)

lemma run_script_fst [simp]: "fst (run_script h root ov fs) = exit_status (fst (main h root ov fs))"
  by (simp add: run_script_def split: prod.splits)

lemma run_script_snd [simp]: "snd (run_script h root ov fs) = snd (main h root ov fs)"
  by (simp add: run_script_def split: prod.splits)

lemma run_script_eq: "run_script h root ov fs = (exit_status (fst (main h root ov fs)), snd (main h root ov fs))"
  by (simp add: run_script_def split: prod.splits)

lemma write_all_exists:
  assumes "write_all h root t ov fs = (None, fs')" and "prefix_free (targets root t)"
    and "[] \<notin> set (targets root t)" and "p \<in> set (targets root t)"
  shows "fs' p \<noteq> None"
proof (cases "fs p = None")
  case True
  from assms(4) obtain k c where kc: "(k, c) \<in> set t" and p: "p = joinpath root k"
    by (auto simp: targets_def)
  from write_all_written [OF assms(1-3) kc] True p have "content_at fs' p = Some c"
    by simp
  then show ?thesis
    by (auto simp: content_at_def split: option.splits)
next
  case False
  show ?thesis
  proof (cases "fs' p = fs p")
    case True
    with False show ?thesis by simp
  next
    case changed: False
    from write_all_changed [OF assms(1) False changed] show ?thesis
      by (auto simp: is_file_Some)
  qed
qed

lemma main_rerun:
  assumes "mkdir_fault h = (\<lambda>_. None)" and "stat_fault h = (\<lambda>_. None)" and "wf_fs fs"
    and "main h root False fs = (None, fs1)"
  shows "main h root False fs1 = (None, fs1)"
  using assms(4)
proof (cases rule: main_split)
  case (completed fs0 fsw)
  note m = modes_changed_is_dir [OF chmod_modes] modes_changed_exists [OF chmod_modes]
  have w0: "wf_fs fs0"
    by (rule mkdir_parents_wf [OF completed(1) assms(3)])
  have ww: "wf_fs fsw"
    by (rule write_all_wf [OF completed(2) w0])
  have w1: "wf_fs fs1"
    unfolding completed(3) by (rule modes_changed_wf [OF chmod_modes ww])
  have "is_dir fs0 root"
    by (rule mkdir_parents_is_dir [OF completed(1)])
  then have "is_dir fsw root"
    using write_all_changed [OF completed(2), of root]
    by (cases "fsw root = fs0 root") (auto simp: is_dir_def is_file_def split: option.splits node.splits)
  then have d1: "is_dir fs1 root"
    by (simp add: completed(3) m)
  have "mkdir_fault h root = None" "stat_fault h root = None"
    by (simp_all add: assms(1,2))
  from mkdir_parents_existing [OF this w1 d1] have s1: "mkdir_parents h root fs1 = (None, fs1)" .
  have "\<forall>p \<in> set (targets root REPO_STRUCTURE). fs1 p \<noteq> None"
    using write_all_exists [OF completed(2) structure_targets_free structure_targets_nonempty]
    by (simp add: completed(3) m)
  from write_all_skip [OF assms(1,2) w1 this]
  have s2: "write_all h root REPO_STRUCTURE False fs1 = (None, fs1)" .
  have s3: "chmod_executables h root executables fs1 = (None, fs1)"
    unfolding completed(3) by (rule chmod_idem) (simp add: first_stat_error_None assms(2))
  from s1 s2 s3 show ?thesis
    by (simp add: main_def)
qed simp_all







lemma write_all_abort:
  assumes "write_all h root t1 ov fs = (None, fs1)"
    and "write_file h (joinpath root k) c ov fs1 = (Some e, fs2)"
  shows "write_all h root (t1 @ (k, c) # t2) ov fs = (Some e, fs2)"
  using assms by (simp add: write_all_append)

subsection \<open>Refused calls\<close>

lemma absent_below_resolve:
  assumes "wf_fs fs" and "fs d = None" and "is_dir fs (parent d)" and "strict_prefix d p"
  shows "resolve fs p = Some FileNotFoundError"
proof -
  from assms(2,4) have "resolve fs p \<noteq> None"
    by (auto simp: resolve_None is_dir_Some)
  then obtain e where e: "resolve fs p = Some e"
    by auto
  have "\<not> is_file fs q" if q: "strict_prefix q p" for q
  proof
    assume f: "is_file fs q"
    from q assms(4) have "prefix q d \<or> strict_prefix d q"
      by (metis prefix_order.less_imp_le prefix_same_cases strict_prefix_def)
    then show False
    proof
      assume "prefix q d"
      with f assms(2) have "strict_prefix q d"
        by (auto simp: strict_prefix_def is_file_Some)
      then have "prefix q (parent d)"
        by (rule strict_prefix_parent)
      from wf_prefix_of_dir [OF assms(1,3) this] f show False
        by (auto dest: dir_not_file)
    next
      assume "strict_prefix d q"
      moreover from f have "fs q \<noteq> None"
        by (auto simp: is_file_Some)
      ultimately have "is_dir fs d"
        using wf_prefix_dir [OF assms(1)] by blast
      with assms(2) show False
        by (simp add: is_dir_Some)
    qed
  qed
  with resolve_Some [OF e] e show ?thesis
    by auto
qed

lemma mkdir_parents_refused:
  assumes "wf_fs fs" and "fs d = None" and "is_dir fs (parent d)"
    and "mkdir_fault h d = Some e" and "e \<noteq> FileNotFoundError"
    and "\<forall>q. strict_prefix d q \<and> prefix q p \<longrightarrow> mkdir_fault h q = None" and "prefix d p"
  shows "mkdir_parents h p fs = (Some (case stat_fault h d of None \<Rightarrow> e | Some e' \<Rightarrow> e'), fs)"
proof -
  from assms(7) obtain zs where p: "p = d @ zs"
    by (auto simp: prefix_def)
  from assms(6) show ?thesis
    unfolding p
  proof (induction zs rule: rev_induct)
    case Nil
    from assms(4) have "os_mkdir h d fs = (Some e, fs)"
      by (simp add: os_mkdir_def)
    with assms(2,5) show ?case
      by (subst mkdir_parents.simps)
         (simp add: path_is_dir_def is_dir_Some split: option.splits)
  next
    case (snoc z zs)
    let ?p = "d @ zs @ [z]"
    have below: "strict_prefix d ?p"
      by (simp add: strict_prefix_def)
    with snoc.prems have "mkdir_fault h ?p = None"
      by simp
    with absent_below_resolve [OF assms(1-3) below]
    have os: "os_mkdir h ?p fs = (Some FileNotFoundError, fs)"
      by (simp add: os_mkdir_def)
    have par: "parent ?p = d @ zs" "parent ?p \<noteq> ?p"
      by (simp_all add: parent_def butlast_append)
    from snoc.prems have "\<forall>q. strict_prefix d q \<and> prefix q (d @ zs) \<longrightarrow> mkdir_fault h q = None"
      by (metis append.assoc prefix_order.trans prefixI)
    from snoc.IH [OF this] os par show ?case
      by (subst mkdir_parents.simps) simp
  qed
qed

lemma write_file_mkdir_refused:
  assumes "wf_fs fs" and "fs d = None" and "is_dir fs (parent d)"
    and "mkdir_fault h d = Some e" and "e \<noteq> FileNotFoundError"
    and "\<forall>q. strict_prefix d q \<and> prefix q (parent p) \<longrightarrow> mkdir_fault h q = None"
    and "prefix d (parent p)"
  shows "write_file h p c ov fs =
           (Some (case stat_fault h d of None \<Rightarrow> e | Some e' \<Rightarrow> e'), fs)"
  using mkdir_parents_refused [OF assms]
  by (simp add: write_file_def ensure_parent_dir_def)

lemma write_file_stat_refused:
  assumes "wf_fs fs" and "is_dir fs (parent p)" and "mkdir_fault h (parent p) = None"
    and "stat_fault h (parent p) = None" and "stat_fault h p = Some e"
  shows "write_file h p c ov fs = (Some e, fs)"
  using mkdir_parents_existing [OF assms(3,4,1,2)] assms(5)
  by (simp add: write_file_def ensure_parent_dir_def path_exists_def)

lemma write_file_open_refused:
  assumes "wf_fs fs" and "is_dir fs (parent p)" and "mkdir_fault h (parent p) = None"
    and "stat_fault h (parent p) = None" and "stat_fault h p = None"
    and "ov \<or> fs p = None" and "open_fault h p = Some e"
  shows "write_file h p c ov fs = (Some e, fs)"
  using mkdir_parents_existing [OF assms(3,4,1,2)] assms(5-)
  by (auto simp: write_file_def ensure_parent_dir_def path_exists_def write_text_def)

lemma write_file_write_failed:
  assumes "wf_fs fs" and "is_dir fs (parent p)" and "mkdir_fault h (parent p) = None"
    and "stat_fault h (parent p) = None" and "stat_fault h p = None"
    and "ov \<or> fs p = None" and "\<not> is_dir fs p" and "open_fault h p = None"
    and "write_fault h p = Some (e, n)"
  shows "fst (write_file h p c ov fs) = Some e"
    and "content_at (snd (write_file h p c ov fs)) p = Some (take n c)"
proof -
  have "is_dir fs q" if "strict_prefix q p" for q
    using wf_prefix_of_dir [OF assms(1,2) strict_prefix_parent [OF that]] .
  then have res: "resolve fs p = None"
    by (simp add: resolve_None)
  from mkdir_parents_existing [OF assms(3,4,1,2)] assms(5-) res
  show "fst (write_file h p c ov fs) = Some e"
    and "content_at (snd (write_file h p c ov fs)) p = Some (take n c)"
    by (auto simp: write_file_def ensure_parent_dir_def path_exists_def write_text_def Let_def
        is_dir_def content_at_def split: option.splits node.splits)
qed

lemma write_all_dirs: "is_dir fs p \<Longrightarrow> is_dir (snd (write_all h root t ov fs)) p"
proof -
  assume d: "is_dir fs p"
  obtain r fs' where w: "write_all h root t ov fs = (r, fs')"
    by (cases "write_all h root t ov fs")
  have "is_dir fs' p"
  proof (cases "fs' p = fs p")
    case True
    with d show ?thesis by (simp add: is_dir_def)
  next
    case False
    from d have "fs p \<noteq> None"
      by (auto simp: is_dir_Some)
    from write_all_changed [OF w this False] d show ?thesis
      by (auto dest: dir_not_file)
  qed
  with w show ?thesis by simp
qed

lemma structure_lookup: "(k, c) \<in> set REPO_STRUCTURE \<Longrightarrow> map_of REPO_STRUCTURE k = Some c"
  using keys_distinct by (simp add: REPO_STRUCTURE_eq)

lemma service_in_structure:
  "s \<in> set SERVICE_NAMES \<Longrightarrow> set (service_entries s) \<subseteq> set REPO_STRUCTURE"
  by (auto simp: REPO_STRUCTURE_eq entries_in_order_def)

lemma write_file_dir_kept:
  assumes "is_dir fs p"
  shows "snd (write_file h p c ov fs) p = fs p"
proof (rule ccontr)
  assume n: "snd (write_file h p c ov fs) p \<noteq> fs p"
  obtain r fs' where w: "write_file h p c ov fs = (r, fs')"
    by (cases "write_file h p c ov fs")
  from assms have "fs p \<noteq> None"
    by (auto simp: is_dir_Some)
  from write_file_changed [OF w this] n w assms show False
    by (auto dest: dir_not_file)
qed

lemma write_file_dir_raises:
  assumes "is_dir fs p"
  shows "fst (write_file h p c True fs) \<noteq> None"
proof
  assume n: "fst (write_file h p c True fs) = None"
  then have w: "write_file h p c True fs = (None, snd (write_file h p c True fs))"
    by (cases "write_file h p c True fs") simp
  from w show False
  proof (cases rule: write_file_split)
    case (written fs1)
    from assms have "fs p \<noteq> None"
      by (auto simp: is_dir_Some)
    from dirs_added_existing [OF mkdir_parents_added [OF written(1)] this] assms
    have "is_dir fs1 p"
      by (simp add: is_dir_def)
    with written(3) show False
      by (auto simp: write_text_def is_dir_def split: option.splits node.splits)
  qed simp_all
qed

lemma entries_length: "length entries_in_order = 209"
  by (simp add: entries_in_order_def literal_entries_def SERVICE_NAMES_def flutter_entries_def
      FLUTTER_FEATURES_def ml_entries_def ML_MODELS_def simulation_entries_def tools_entries_def
      tests_entries_def service_entries_def)

subsection \<open>Concrete runs\<close>

lemma quiet_host_free: "writer_fault_free quiet_host"
  by (simp add: writer_fault_free_def quiet_host_def)

lemma bare_fs_wf: "wf_fs bare_fs"
  by (simp add: wf_fs_def bare_fs_def is_dir_def parent_def)

lemma bare_fs_empty_root: "c \<noteq> [] \<Longrightarrow> empty_root bare_fs [c]"
  by (auto simp: empty_root_def bare_fs_def is_file_def)

lemma seeded_fs_wf: "wf_fs seeded_fs"
  by (auto simp: wf_fs_def seeded_fs_def is_dir_def parent_def)

lemma structure_head:
  "REPO_STRUCTURE =
     (''README.md'', ''# ASV\<newline>\<newline>Monorepo scaffold.\<newline>'') #
     (''LICENSE'', ''TODO: rAdd license text.\<newline>'') # tl (tl REPO_STRUCTURE)"
  by (simp add: REPO_STRUCTURE_eq entries_in_order_def literal_entries_def)

lemma structure_first:
  "(''README.md'', ''# ASV\<newline>\<newline>Monorepo scaffold.\<newline>'') \<in> set REPO_STRUCTURE"
  "(''LICENSE'', ''TODO: rAdd license text.\<newline>'') \<in> set REPO_STRUCTURE"
  by (subst structure_head, simp)+

lemma joinpath_examples:
  "joinpath root ''README.md'' = root @ [''README.md'']"
  "joinpath root ''LICENSE'' = root @ [''LICENSE'']"
  "joinpath root ''tools/git/anmol'' = root @ [''tools'', ''git'', ''anmol'']"
  "joinpath root ''backend/services/gateway/src/README.md'' =
     root @ [''backend'', ''services'', ''gateway'', ''src'', ''README.md'']"
  by (simp_all add: joinpath_def is_absolute_def parts_def)

lemma files_at_targets_unblocked:
  assumes "\<forall>q. is_file fs q \<longrightarrow> q \<in> set (targets root REPO_STRUCTURE)"
  shows "unblocked fs root"
  unfolding unblocked_def
proof (intro ballI allI impI notI)
  fix p q assume p: "p \<in> set (targets root REPO_STRUCTURE)" and q: "strict_prefix q p" "is_file fs q"
  with assms have "q \<in> set (targets root REPO_STRUCTURE)"
    by blast
  with p q(1) structure_targets_free [of root] show False
    unfolding prefix_free_def strict_prefix_def by blast
qed

lemma seeded_fs_unblocked: "unblocked seeded_fs [''srv'']"
proof (rule files_at_targets_unblocked, intro allI impI)
  fix q assume "is_file seeded_fs q"
  then have "q = [''srv''] @ [''README.md'']"
    by (auto simp: seeded_fs_def is_file_def split: if_splits)
  with in_targets [OF structure_first(1), of "[''srv'']"]
  show "q \<in> set (targets [''srv''] REPO_STRUCTURE)"
    by (simp add: joinpath_examples)
qed

lemma seeded_fs_no_dir_target:
  "\<forall>p \<in> set (targets [''srv''] REPO_STRUCTURE). \<not> is_dir seeded_fs p"
proof
  fix p assume "p \<in> set (targets [''srv''] REPO_STRUCTURE)"
  from structure_targets_below [OF this] show "\<not> is_dir seeded_fs p"
    by (auto simp: seeded_fs_def is_dir_def strict_prefix_def split: if_splits)
qed

lemma srv_fs_wf: "wf_fs srv_fs"
  by (auto simp: wf_fs_def srv_fs_def is_dir_def parent_def)


lemma joinpath_more:
  "joinpath root ''.github/workflows/ci.yml'' = root @ [''.github'', ''workflows'', ''ci.yml'']"
  "joinpath root ''SECURITY.md'' = root @ [''SECURITY.md'']"
  "joinpath root ''.githooks/commit-msg'' = root @ [''.githooks'', ''commit-msg'']"
  "joinpath root ''.githooks/pre-commit'' = root @ [''.githooks'', ''pre-commit'']"
  by (simp_all add: joinpath_def is_absolute_def parts_def)

lemma structure_take:
  "map fst (take 9 REPO_STRUCTURE) =
     [''README.md'', ''LICENSE'', ''.env.example'', ''.editorconfig'', ''.gitignore'',
      ''docker-compose.yml'', ''Makefile'', ''CHANGELOG.md'', ''SECURITY.md'']"
  by (simp add: REPO_STRUCTURE_eq entries_in_order_def literal_entries_def)

lemma structure_ninth:
  "(''SECURITY.md'', ''# Security\<newline>\<newline>Report issues responsibly.\<newline>'') \<in> set (take 9 REPO_STRUCTURE)"
  by (simp add: REPO_STRUCTURE_eq entries_in_order_def literal_entries_def)

lemma structure_split:
  "REPO_STRUCTURE =
     take 9 REPO_STRUCTURE @
     (''.github/workflows/ci.yml'', ''name: ci\<newline>on: [push, pull_request]\<newline>jobs: {}\<newline>'') #
     drop 10 REPO_STRUCTURE"
proof -
  have "REPO_STRUCTURE ! 9 =
      (''.github/workflows/ci.yml'', ''name: ci\<newline>on: [push, pull_request]\<newline>jobs: {}\<newline>'')"
    by (simp add: REPO_STRUCTURE_eq entries_in_order_def literal_entries_def)
  moreover have "9 < length REPO_STRUCTURE"
    by (simp add: REPO_STRUCTURE_eq entries_length)
  ultimately show ?thesis
    using id_take_nth_drop [of 9 REPO_STRUCTURE] by simp
qed

lemma top_targets:
  "targets [''srv''] (take 9 REPO_STRUCTURE) =
     map (\<lambda>k. [''srv'', k])
       [''README.md'', ''LICENSE'', ''.env.example'', ''.editorconfig'', ''.gitignore'',
        ''docker-compose.yml'', ''Makefile'', ''CHANGELOG.md'', ''SECURITY.md'']"
proof -
  have "targets [''srv''] (take 9 REPO_STRUCTURE) =
      map (joinpath [''srv'']) (map fst (take 9 REPO_STRUCTURE))"
    by (simp add: targets_def)
  also have "\<dots> = map (\<lambda>k. [''srv'', k])
       [''README.md'', ''LICENSE'', ''.env.example'', ''.editorconfig'', ''.gitignore'',
        ''docker-compose.yml'', ''Makefile'', ''CHANGELOG.md'', ''SECURITY.md'']"
    unfolding structure_take by (simp add: joinpath_def is_absolute_def parts_def)
  finally show ?thesis .
qed

lemma top_targets_free:
  "prefix_free (targets [''srv''] (take 9 REPO_STRUCTURE))"
  "[] \<notin> set (targets [''srv''] (take 9 REPO_STRUCTURE))"
proof -
  have "targets [''srv''] REPO_STRUCTURE =
      targets [''srv''] (take 9 REPO_STRUCTURE) @ targets [''srv''] (drop 9 REPO_STRUCTURE)"
    by (simp add: targets_def flip: map_append)
  with structure_targets_free [of "[''srv'']"]
  show "prefix_free (targets [''srv''] (take 9 REPO_STRUCTURE))"
    by (simp add: prefix_free_append)
  show "[] \<notin> set (targets [''srv''] (take 9 REPO_STRUCTURE))"
    by (simp add: top_targets)
qed

lemma refusing_host_clear:
  assumes "length p \<le> 2" and "p \<noteq> [''srv'', ''.github'']"
  shows "writer_clear_at refusing_host p"
proof -
  have "q \<noteq> [''srv'', ''.github'']" if "strict_prefix q p" for q
    using prefix_length_less [OF that] assms(1) by auto
  then show ?thesis
    by (simp add: writer_clear_at_def refusing_host_def quiet_host_def)
qed

lemma refusing_host_top:
  "fst (write_all refusing_host [''srv''] (take 9 REPO_STRUCTURE) False srv_fs) = None"
proof (rule write_all_clear [OF _ srv_fs_wf top_targets_free])
  show "\<forall>p \<in> set (targets [''srv''] (take 9 REPO_STRUCTURE)). writer_clear_at refusing_host p"
    unfolding top_targets by (auto intro!: refusing_host_clear)
  show "\<forall>p \<in> set (targets [''srv''] (take 9 REPO_STRUCTURE)).
      \<forall>q. strict_prefix q p \<longrightarrow> \<not> is_file srv_fs q"
    by (simp add: srv_fs_def is_file_def)
qed simp

section \<open>The claims\<close>

text \<open>
  \<^bold>\<open>C1.\<close> Completeness. The host refuses no call of the writer, the state is a tree, nothing exists below the root and no prefix of the root is a regular file. Then the loop over the table raises nothing, and afterwards every key of the table is a regular file below the root whose content is the content the table gives it, byte for byte. The same holds after the whole script, which ends with status 0. This is so for either value of the overwrite flag.
\<close>

theorem scaffold_complete:
  assumes "writer_fault_free h" and "wf_fs fs" and "empty_root fs root"
  shows "fst (write_all h root REPO_STRUCTURE ov fs) = None \<and>
         (\<forall>(k, c) \<in> set REPO_STRUCTURE.
            content_at (snd (write_all h root REPO_STRUCTURE ov fs)) (joinpath root k) = Some c) \<and>
         fst (run_script h root ov fs) = 0 \<and>
         (\<forall>(k, c) \<in> set REPO_STRUCTURE.
            content_at (snd (run_script h root ov fs)) (joinpath root k) = Some c)"
proof -
  note e = empty_root_unblocked [OF assms(2,3)]
  from e(2) have nodir: "ov \<longrightarrow> (\<forall>p \<in> set (targets root REPO_STRUCTURE). \<not> is_dir fs p)"
    by (simp add: is_dir_def)
  from e(1) have clear: "\<forall>p \<in> set (targets root REPO_STRUCTURE). \<forall>q. strict_prefix q p \<longrightarrow> \<not> is_file fs q"
    by (simp add: unblocked_def)
  obtain r fsw where w: "write_all h root REPO_STRUCTURE ov fs = (r, fsw)"
    by (cases "write_all h root REPO_STRUCTURE ov fs")
  from write_all_ok [OF assms(1,2) structure_targets_free structure_targets_nonempty clear nodir] w
  have r: "r = None"
    by simp
  have a: "content_at fsw (joinpath root k) = Some c" if "(k, c) \<in> set REPO_STRUCTURE" for k c
    using write_all_written [OF w [unfolded r] structure_targets_free structure_targets_nonempty that]
      e(2) in_targets [OF that, of root] by auto
  obtain r' fs' where m: "main h root ov fs = (r', fs')"
    by (cases "main h root ov fs")
  from main_ok [OF assms(1,2) e(1) nodir] m have r': "r' = None"
    by simp
  have b: "content_at fs' (joinpath root k) = Some c" if "(k, c) \<in> set REPO_STRUCTURE" for k c
    using main_written [OF m [unfolded r'] that] e(2) in_targets [OF that, of root] by auto
  from a b show ?thesis
    by (auto simp: w r m r')
qed

text \<open>The run from the bare file system into \<^verbatim>\<open>/srv\<close>: status 0, and \<^verbatim>\<open>/srv/README.md\<close> holds the text of the table.\<close>

theorem scaffold_complete_witness:
  "fst (run_script quiet_host [''srv''] False bare_fs) = 0 \<and>
   content_at (snd (run_script quiet_host [''srv''] False bare_fs)) [''srv'', ''README.md''] =
     Some ''# ASV\<newline>\<newline>Monorepo scaffold.\<newline>''"
  using scaffold_complete [OF quiet_host_free bare_fs_wf bare_fs_empty_root, of "''srv''" False]
    structure_first(1)
  by (auto simp: joinpath_examples)

text \<open>
  \<^bold>\<open>C2.\<close> Non-destructive default. Without the overwrite flag, every regular file that exists before the run has the same content after it, on every host and whether the run ends well or not; the loop over the table leaves every node that exists as it is. When the run ends with status 0, every entry whose path did not exist is a file with the content of the table. The run ends with status 0 when the host refuses no call of the writer, the state is a tree and no proper prefix of a target is a regular file.
\<close>

theorem default_keeps_existing_files:
  "(content_at fs p = Some c \<longrightarrow> content_at (snd (run_script h root False fs)) p = Some c) \<and>
   (fs p \<noteq> None \<longrightarrow> snd (write_all h root REPO_STRUCTURE False fs) p = fs p) \<and>
   (fst (run_script h root False fs) = 0 \<longrightarrow>
      (\<forall>(k, d) \<in> set REPO_STRUCTURE.
         fs (joinpath root k) = None \<longrightarrow>
         content_at (snd (run_script h root False fs)) (joinpath root k) = Some d)) \<and>
   (writer_fault_free h \<and> wf_fs fs \<and> unblocked fs root \<longrightarrow>
      fst (run_script h root False fs) = 0)"
proof (intro conjI impI)
  assume "content_at fs p = Some c"
  then show "content_at (snd (run_script h root False fs)) p = Some c"
    by (simp add: main_keeps)
next
  assume ex: "fs p \<noteq> None"
  obtain r fsw where w: "write_all h root REPO_STRUCTURE False fs = (r, fsw)"
    by (cases "write_all h root REPO_STRUCTURE False fs")
  from write_all_changed [OF w ex] show "snd (write_all h root REPO_STRUCTURE False fs) p = fs p"
    by (auto simp: w)
next
  assume "fst (run_script h root False fs) = 0"
  then have "main h root False fs = (None, snd (main h root False fs))"
    by (cases "main h root False fs") simp
  from main_written [OF this]
  show "\<forall>(k, d) \<in> set REPO_STRUCTURE.
         fs (joinpath root k) = None \<longrightarrow>
         content_at (snd (run_script h root False fs)) (joinpath root k) = Some d"
    by auto
next
  assume "writer_fault_free h \<and> wf_fs fs \<and> unblocked fs root"
  with main_ok [of h fs root False] show "fst (run_script h root False fs) = 0"
    by simp
qed

text \<open>A run over \<^verbatim>\<open>/srv\<close> where \<^verbatim>\<open>/srv/README.md\<close> holds other text: it keeps that text, the run ends with status 0, and \<^verbatim>\<open>/srv/LICENSE\<close> is created.\<close>

theorem default_keeps_existing_files_witness:
  "content_at (snd (run_script quiet_host [''srv''] False seeded_fs)) [''srv'', ''README.md''] =
     Some ''mine'' \<and>
   fst (run_script quiet_host [''srv''] False seeded_fs) = 0 \<and>
   content_at (snd (run_script quiet_host [''srv''] False seeded_fs)) [''srv'', ''LICENSE''] =
     Some ''TODO: rAdd license text.\<newline>''"
proof -
  have a: "content_at seeded_fs [''srv'', ''README.md''] = Some ''mine''"
    by (simp add: seeded_fs_def content_at_def)
  have b: "seeded_fs (joinpath [''srv''] ''LICENSE'') = None"
    by (simp add: joinpath_examples seeded_fs_def)
  from default_keeps_existing_files [of seeded_fs "[''srv'', ''README.md'']" "''mine''"
      quiet_host "[''srv'']"] a b quiet_host_free seeded_fs_wf seeded_fs_unblocked
    structure_first(2)
  show ?thesis
    by (auto simp: joinpath_examples)
qed

text \<open>
  \<^bold>\<open>C3.\<close> Idempotence. On a host that refuses no call of the writer and from a state that is a tree: when a run without the overwrite flag ends with status 0, a second run from the state it left ends with status 0 too and leaves that state as it is. From an empty root the first run does end with status 0.
\<close>

theorem rerun_changes_nothing:
  assumes "writer_fault_free h" and "wf_fs fs"
  shows "(fst (run_script h root False fs) = 0 \<longrightarrow>
            run_script h root False (snd (run_script h root False fs)) =
            run_script h root False fs) \<and>
         (empty_root fs root \<longrightarrow> fst (run_script h root False fs) = 0)"
proof (intro conjI impI)
  assume "fst (run_script h root False fs) = 0"
  then have "main h root False fs = (None, snd (main h root False fs))"
    by (cases "main h root False fs") simp
  from main_rerun [OF _ _ assms(2) this] assms(1) this
  show "run_script h root False (snd (run_script h root False fs)) = run_script h root False fs"
    by (simp add: run_script_eq writer_fault_free_def)
next
  assume "empty_root fs root"
  from main_ok [OF assms empty_root_unblocked(1) [OF assms(2) this]]
  show "fst (run_script h root False fs) = 0"
    by simp
qed

text \<open>Two runs into \<^verbatim>\<open>/srv\<close> from the bare file system.\<close>

theorem rerun_changes_nothing_witness:
  "run_script quiet_host [''srv''] False (snd (run_script quiet_host [''srv''] False bare_fs)) =
     run_script quiet_host [''srv''] False bare_fs \<and>
   fst (run_script quiet_host [''srv''] False bare_fs) = 0"
  using rerun_changes_nothing [OF quiet_host_free bare_fs_wf, of "[''srv'']"]
    bare_fs_empty_root [of "''srv''"]
  by simp

text \<open>
  \<^bold>\<open>C4.\<close> Overwrite forces refresh. When a run with the overwrite flag ends with status 0, every key of the table is a regular file whose content is the content of the table, whatever was there before. The run ends with status 0 when the host refuses no call of the writer, the state is a tree, no proper prefix of a target is a regular file and no target is a directory.
\<close>

theorem overwrite_refreshes:
  "(fst (run_script h root True fs) = 0 \<longrightarrow>
      (\<forall>(k, c) \<in> set REPO_STRUCTURE.
         content_at (snd (run_script h root True fs)) (joinpath root k) = Some c)) \<and>
   (writer_fault_free h \<and> wf_fs fs \<and> unblocked fs root \<and>
    (\<forall>p \<in> set (targets root REPO_STRUCTURE). \<not> is_dir fs p) \<longrightarrow>
      fst (run_script h root True fs) = 0)"
proof (intro conjI impI)
  assume "fst (run_script h root True fs) = 0"
  then have "main h root True fs = (None, snd (main h root True fs))"
    by (cases "main h root True fs") simp
  from main_written [OF this]
  show "\<forall>(k, c) \<in> set REPO_STRUCTURE.
         content_at (snd (run_script h root True fs)) (joinpath root k) = Some c"
    by auto
next
  assume "writer_fault_free h \<and> wf_fs fs \<and> unblocked fs root \<and>
    (\<forall>p \<in> set (targets root REPO_STRUCTURE). \<not> is_dir fs p)"
  with main_ok [of h fs root True] show "fst (run_script h root True fs) = 0"
    by simp
qed

text \<open>The run with the flag over \<^verbatim>\<open>/srv\<close> where \<^verbatim>\<open>/srv/README.md\<close> holds other text: the text of the table replaces it.\<close>

theorem overwrite_refreshes_witness:
  "fst (run_script quiet_host [''srv''] True seeded_fs) = 0 \<and>
   content_at (snd (run_script quiet_host [''srv''] True seeded_fs)) [''srv'', ''README.md''] =
     Some ''# ASV\<newline>\<newline>Monorepo scaffold.\<newline>''"
  using overwrite_refreshes [of quiet_host "[''srv'']" seeded_fs]
    quiet_host_free seeded_fs_wf seeded_fs_unblocked seeded_fs_no_dir_target structure_first(1)
  by (auto simp: joinpath_examples)

text \<open>
  \<^bold>\<open>C5.\<close> Fatal failures. In a tree where the directory \<open>d\<close> is missing below an existing directory and lies on the way to the parent of \<open>p\<close>: when the host refuses to create \<open>d\<close> with any error but a missing parent (permission denied, disk full), \<^verbatim>\<open>write_file\<close> raises that error and changes nothing (it raises the error of the \<^verbatim>\<open>is_dir\<close> test in pathlib's handler when that test fails too). When the parent of \<open>p\<close> exists: an error of the existence test, a refused opening, and a write that fails after \<open>n\<close> characters each leave \<^verbatim>\<open>write_file\<close> as the error; the failed write leaves the characters stored. Whatever \<^verbatim>\<open>ensure_parent_dir\<close>, \<^verbatim>\<open>exists\<close> and \<^verbatim>\<open>write_text\<close> raise, \<^verbatim>\<open>write_file\<close> raises, in the state reached. A refused creation of a missing directory on the way to the root ends the script with status 1 and the state unchanged, and so does every error while the root is made. When the entries before an entry are written and \<^verbatim>\<open>write_file\<close> raises at that entry, \<^verbatim>\<open>main\<close> raises the same error in the state that call left: no later entry is written, no permission is set, and the script ends with status 1. The status is 0 exactly when \<^verbatim>\<open>main\<close> raises nothing, and it is 0 or 1.
\<close>

theorem io_failure_aborts:
  "(wf_fs fs \<and> fs d = None \<and> is_dir fs (parent d) \<and> prefix d (parent p) \<and>
    mkdir_fault h d = Some e \<and> e \<noteq> FileNotFoundError \<and>
    (\<forall>q. strict_prefix d q \<and> prefix q (parent p) \<longrightarrow> mkdir_fault h q = None) \<longrightarrow>
      write_file h p c ov fs = (Some (case stat_fault h d of None \<Rightarrow> e | Some e' \<Rightarrow> e'), fs)) \<and>
   (wf_fs fs \<and> is_dir fs (parent p) \<and> mkdir_fault h (parent p) = None \<and>
    stat_fault h (parent p) = None \<longrightarrow>
      (stat_fault h p = Some e \<longrightarrow> write_file h p c ov fs = (Some e, fs)) \<and>
      (stat_fault h p = None \<and> (ov \<or> fs p = None) \<and> open_fault h p = Some e \<longrightarrow>
         write_file h p c ov fs = (Some e, fs)) \<and>
      (stat_fault h p = None \<and> (ov \<or> fs p = None) \<and> \<not> is_dir fs p \<and> open_fault h p = None \<and>
       write_fault h p = Some (e, n) \<longrightarrow>
         fst (write_file h p c ov fs) = Some e \<and>
         content_at (snd (write_file h p c ov fs)) p = Some (take n c))) \<and>
   (ensure_parent_dir h p fs = (Some e, fa) \<longrightarrow> write_file h p c ov fs = (Some e, fa)) \<and>
   (ensure_parent_dir h p fs = (None, fa) \<and> path_exists h fa p = Inl e \<longrightarrow>
      write_file h p c ov fs = (Some e, fa)) \<and>
   (ensure_parent_dir h p fs = (None, fa) \<and> path_exists h fa p = Inr found \<and>
    (ov \<or> \<not> found) \<and> write_text h p c fa = (Some e, fb) \<longrightarrow>
      write_file h p c ov fs = (Some e, fb)) \<and>
   (wf_fs fs \<and> fs d = None \<and> is_dir fs (parent d) \<and> prefix d root \<and>
    mkdir_fault h d = Some e \<and> e \<noteq> FileNotFoundError \<and>
    (\<forall>q. strict_prefix d q \<and> prefix q root \<longrightarrow> mkdir_fault h q = None) \<longrightarrow>
      run_script h root ov fs = (1, fs)) \<and>
   (mkdir_parents h root fs = (Some e, fa) \<longrightarrow> run_script h root ov fs = (1, fa)) \<and>
   (mkdir_parents h root fs = (None, fr) \<and> REPO_STRUCTURE = pre @ (k, c) # post \<and>
    write_all h root pre ov fr = (None, fa) \<and>
    write_file h (joinpath root k) c ov fa = (Some e, fb) \<longrightarrow>
      main h root ov fs = (Some e, fb) \<and> run_script h root ov fs = (1, fb)) \<and>
   (fst (run_script h root ov fs) = 0 \<longleftrightarrow> fst (main h root ov fs) = None) \<and>
   (fst (run_script h root ov fs) = 0 \<or> fst (run_script h root ov fs) = 1)"
proof -
  have mk: "(wf_fs fs \<and> fs d = None \<and> is_dir fs (parent d) \<and> prefix d (parent p) \<and>
       mkdir_fault h d = Some e \<and> e \<noteq> FileNotFoundError \<and>
       (\<forall>q. strict_prefix d q \<and> prefix q (parent p) \<longrightarrow> mkdir_fault h q = None) \<longrightarrow>
         write_file h p c ov fs = (Some (case stat_fault h d of None \<Rightarrow> e | Some e' \<Rightarrow> e'), fs))"
    by (auto intro: write_file_mkdir_refused)
  have wr: "(wf_fs fs \<and> is_dir fs (parent p) \<and> mkdir_fault h (parent p) = None \<and>
       stat_fault h (parent p) = None \<longrightarrow>
         (stat_fault h p = Some e \<longrightarrow> write_file h p c ov fs = (Some e, fs)) \<and>
         (stat_fault h p = None \<and> (ov \<or> fs p = None) \<and> open_fault h p = Some e \<longrightarrow>
            write_file h p c ov fs = (Some e, fs)) \<and>
         (stat_fault h p = None \<and> (ov \<or> fs p = None) \<and> \<not> is_dir fs p \<and> open_fault h p = None \<and>
          write_fault h p = Some (e, n) \<longrightarrow>
            fst (write_file h p c ov fs) = Some e \<and>
            content_at (snd (write_file h p c ov fs)) p = Some (take n c)))"
    using write_file_stat_refused [of fs p h e c ov] write_file_open_refused [of fs p h ov e c]
      write_file_write_failed [of fs p h ov e n c]
    by blast
  have p1: "(ensure_parent_dir h p fs = (Some e, fa) \<longrightarrow> write_file h p c ov fs = (Some e, fa))"
    by (simp add: write_file_def)
  have p2: "(ensure_parent_dir h p fs = (None, fa) \<and> path_exists h fa p = Inl e \<longrightarrow>
         write_file h p c ov fs = (Some e, fa))"
    by (simp add: write_file_def)
  have p3: "(ensure_parent_dir h p fs = (None, fa) \<and> path_exists h fa p = Inr found \<and>
       (ov \<or> \<not> found) \<and> write_text h p c fa = (Some e, fb) \<longrightarrow>
         write_file h p c ov fs = (Some e, fb))"
    by (auto simp: write_file_def)
  have rt: "(wf_fs fs \<and> fs d = None \<and> is_dir fs (parent d) \<and> prefix d root \<and>
       mkdir_fault h d = Some e \<and> e \<noteq> FileNotFoundError \<and>
       (\<forall>q. strict_prefix d q \<and> prefix q root \<longrightarrow> mkdir_fault h q = None) \<longrightarrow>
         run_script h root ov fs = (1, fs))"
    using mkdir_parents_refused [of fs d h e root]
    by (auto simp: run_script_def main_def exit_status_def)
  have rf: "(mkdir_parents h root fs = (Some e, fa) \<longrightarrow> run_script h root ov fs = (1, fa))"
    by (simp add: run_script_def main_def exit_status_def)
  have ab: "(mkdir_parents h root fs = (None, fr) \<and> REPO_STRUCTURE = pre @ (k, c) # post \<and>
       write_all h root pre ov fr = (None, fa) \<and>
       write_file h (joinpath root k) c ov fa = (Some e, fb) \<longrightarrow>
         main h root ov fs = (Some e, fb) \<and> run_script h root ov fs = (1, fb))"
    using write_all_abort [of h root pre ov fr fa k c e fb post]
    by (auto simp: main_def run_script_def exit_status_def)
  have s1: "(fst (run_script h root ov fs) = 0 \<longleftrightarrow> fst (main h root ov fs) = None)"
    by simp
  have s2: "(fst (run_script h root ov fs) = 0 \<or> fst (run_script h root ov fs) = 1)"
    by (simp add: exit_status_def split: option.splits)
  from mk wr p1 p2 p3 rt rf ab s1 s2 show ?thesis
    by (intro conjI)
qed

text \<open>A host that refuses to create \<^verbatim>\<open>/srv/.github\<close>: the nine entries before \<^verbatim>\<open>.github/workflows/ci.yml\<close> are written, the script ends with status 1 on \<^verbatim>\<open>PermissionError\<close> in the state the ninth write left, \<^verbatim>\<open>/srv/.github\<close> does not exist and \<^verbatim>\<open>/srv/SECURITY.md\<close> holds its text.\<close>

theorem io_failure_aborts_witness:
  "run_script refusing_host [''srv''] False srv_fs =
     (1, snd (write_all refusing_host [''srv''] (take 9 REPO_STRUCTURE) False srv_fs)) \<and>
   fst (main refusing_host [''srv''] False srv_fs) = Some PermissionError \<and>
   snd (main refusing_host [''srv''] False srv_fs) [''srv'', ''.github''] = None \<and>
   content_at (snd (main refusing_host [''srv''] False srv_fs)) [''srv'', ''SECURITY.md''] =
     Some ''# Security\<newline>\<newline>Report issues responsibly.\<newline>''"
proof -
  let ?h = refusing_host and ?d = "[''srv'', ''.github'']"
  let ?p = "[''srv'', ''.github'', ''workflows'', ''ci.yml'']"
  let ?c = "''name: ci\<newline>on: [push, pull_request]\<newline>jobs: {}\<newline>''"
  define fa where "fa = snd (write_all ?h [''srv''] (take 9 REPO_STRUCTURE) False srv_fs)"
  have w: "write_all ?h [''srv''] (take 9 REPO_STRUCTURE) False srv_fs = (None, fa)"
    using refusing_host_top unfolding fa_def by (metis prod.collapse)
  have wf: "wf_fs fa"
    by (rule write_all_wf [OF w srv_fs_wf])
  have dir: "is_dir fa (parent ?d)"
    using write_all_dirs [of srv_fs "[''srv'']" ?h "[''srv'']" "take 9 REPO_STRUCTURE" False]
    by (simp add: fa_def parent_def srv_fs_def is_dir_def)
  have absent: "fa ?d = None"
  proof (rule ccontr)
    assume "fa ?d \<noteq> None"
    moreover have "srv_fs ?d = None"
      by (simp add: srv_fs_def)
    ultimately show False
      using write_all_new [OF w, of ?d] unfolding top_targets by (auto simp: parent_def)
  qed
  have root: "mkdir_parents ?h [''srv''] srv_fs = (None, srv_fs)"
    by (rule mkdir_parents_existing [OF _ _ srv_fs_wf])
       (simp_all add: refusing_host_def quiet_host_def srv_fs_def is_dir_def)
  have refused: "mkdir_fault ?h ?d = Some PermissionError" "stat_fault ?h ?d = None"
    "\<forall>q. strict_prefix ?d q \<and> prefix q (parent ?p) \<longrightarrow> mkdir_fault ?h q = None"
    by (auto simp: refusing_host_def quiet_host_def)
  have below: "prefix ?d (parent ?p)"
    by (simp add: parent_def)
  from io_failure_aborts [where h = ?h and fs = fa and d = ?d and p = ?p and e = PermissionError
      and c = ?c and ov = False] wf absent dir below refused
  have failing: "write_file ?h ?p ?c False fa = (Some PermissionError, fa)"
    by simp
  from io_failure_aborts [where h = ?h and root = "[''srv'']" and ov = False and fs = srv_fs
      and fr = srv_fs and fa = fa and fb = fa and e = PermissionError
      and pre = "take 9 REPO_STRUCTURE" and k = "''.github/workflows/ci.yml''" and c = ?c
      and post = "drop 10 REPO_STRUCTURE"]
    root structure_split w failing
  have run: "main ?h [''srv''] False srv_fs = (Some PermissionError, fa)"
    "run_script ?h [''srv''] False srv_fs = (1, fa)"
    by (simp_all add: joinpath_more)
  have "srv_fs (joinpath [''srv''] ''SECURITY.md'') = None"
    by (simp add: joinpath_more srv_fs_def)
  with write_all_written [OF w top_targets_free structure_ninth]
  have "content_at fa [''srv'', ''SECURITY.md''] =
      Some ''# Security\<newline>\<newline>Report issues responsibly.\<newline>''"
    by (simp add: joinpath_more)
  with run absent show ?thesis
    by (simp add: fa_def)
qed




text \<open>
  \<^bold>\<open>C7.\<close> Generated service entries. \<^verbatim>\<open>SERVICE_NAMES\<close> is the list of thirteen names. For each name \<open>s\<close> of it the table maps \<^verbatim>\<open>backend/services/s/src/README.md\<close> and \<^verbatim>\<open>backend/services/s/tests/README.md\<close> to the lines made from \<open>s\<close>, which contain \<open>s\<close>; and after a run from an empty root, on a host that refuses no call of the writer, both are files with that content.
\<close>

theorem service_entries_generated:
  "SERVICE_NAMES =
     [''gateway'', ''auth'', ''fleet'', ''telemetry'', ''realtime'', ''commands'', ''approvals'',
      ''incidents'', ''alerting'', ''audit'', ''policy'', ''video'', ''config_rollout''] \<and>
   (\<forall>s \<in> set SERVICE_NAMES.
      map_of REPO_STRUCTURE (''backend/services/'' @ s @ ''/src/README.md'') =
        Some (''# '' @ s @ ''\<newline>'') \<and>
      map_of REPO_STRUCTURE (''backend/services/'' @ s @ ''/tests/README.md'') =
        Some (''# tests for '' @ s @ ''\<newline>'') \<and>
      sublist s (''# '' @ s @ ''\<newline>'') \<and> sublist s (''# tests for '' @ s @ ''\<newline>'') \<and>
      (writer_fault_free h \<and> wf_fs fs \<and> empty_root fs root \<longrightarrow>
         content_at (snd (run_script h root ov fs))
           (joinpath root (''backend/services/'' @ s @ ''/src/README.md'')) =
           Some (''# '' @ s @ ''\<newline>'') \<and>
         content_at (snd (run_script h root ov fs))
           (joinpath root (''backend/services/'' @ s @ ''/tests/README.md'')) =
           Some (''# tests for '' @ s @ ''\<newline>'')))"
proof (intro conjI ballI impI)
  show "SERVICE_NAMES =
     [''gateway'', ''auth'', ''fleet'', ''telemetry'', ''realtime'', ''commands'', ''approvals'',
      ''incidents'', ''alerting'', ''audit'', ''policy'', ''video'', ''config_rollout'']"
    by (simp add: SERVICE_NAMES_def)
next
  fix s assume s: "s \<in> set SERVICE_NAMES"
  from service_in_structure [OF s]
  have src: "(''backend/services/'' @ s @ ''/src/README.md'', ''# '' @ s @ ''\<newline>'') \<in> set REPO_STRUCTURE"
    and tests: "(''backend/services/'' @ s @ ''/tests/README.md'', ''# tests for '' @ s @ ''\<newline>'')
        \<in> set REPO_STRUCTURE"
    by (simp_all add: service_entries_def)
  from src show "map_of REPO_STRUCTURE (''backend/services/'' @ s @ ''/src/README.md'') =
        Some (''# '' @ s @ ''\<newline>'')"
    by (rule structure_lookup)
  from tests show "map_of REPO_STRUCTURE (''backend/services/'' @ s @ ''/tests/README.md'') =
        Some (''# tests for '' @ s @ ''\<newline>'')"
    by (rule structure_lookup)
  show "sublist s (''# '' @ s @ ''\<newline>'')" "sublist s (''# tests for '' @ s @ ''\<newline>'')"
    by (rule sublist_appendI)+
  assume a: "writer_fault_free h \<and> wf_fs fs \<and> empty_root fs root"
  then have u: "unblocked fs root" and none: "\<forall>p \<in> set (targets root REPO_STRUCTURE). fs p = None"
    using empty_root_unblocked by blast+
  obtain r fs' where m: "main h root ov fs = (r, fs')"
    by (cases "main h root ov fs")
  from a u none main_ok [of h fs root ov] m have r: "r = None"
    by (simp add: is_dir_def)
  from main_written [OF m [unfolded r] src] none in_targets [OF src, of root]
  show "content_at (snd (run_script h root ov fs))
           (joinpath root (''backend/services/'' @ s @ ''/src/README.md'')) =
           Some (''# '' @ s @ ''\<newline>'')"
    by (auto simp: m)
  from main_written [OF m [unfolded r] tests] none in_targets [OF tests, of root]
  show "content_at (snd (run_script h root ov fs))
           (joinpath root (''backend/services/'' @ s @ ''/tests/README.md'')) =
           Some (''# tests for '' @ s @ ''\<newline>'')"
    by (auto simp: m)
qed

text \<open>The entry of \<^verbatim>\<open>gateway\<close>, in the table and after a run into \<^verbatim>\<open>/srv\<close>.\<close>

theorem service_entries_generated_witness:
  "map_of REPO_STRUCTURE ''backend/services/gateway/src/README.md'' = Some ''# gateway\<newline>'' \<and>
   sublist ''gateway'' ''# gateway\<newline>'' \<and>
   content_at (snd (run_script quiet_host [''srv''] False bare_fs))
     [''srv'', ''backend'', ''services'', ''gateway'', ''src'', ''README.md''] =
     Some ''# gateway\<newline>''"
proof -
  have m: "''gateway'' \<in> set SERVICE_NAMES"
    by (simp add: SERVICE_NAMES_def)
  from service_entries_generated [of quiet_host bare_fs "[''srv'']" False] m
    quiet_host_free bare_fs_wf bare_fs_empty_root [of "''srv''"]
  have "map_of REPO_STRUCTURE (''backend/services/'' @ ''gateway'' @ ''/src/README.md'') =
        Some (''# '' @ ''gateway'' @ ''\<newline>'')"
    and "sublist ''gateway'' (''# '' @ ''gateway'' @ ''\<newline>'')"
    and "content_at (snd (run_script quiet_host [''srv''] False bare_fs))
           (joinpath [''srv''] (''backend/services/'' @ ''gateway'' @ ''/src/README.md'')) =
           Some (''# '' @ ''gateway'' @ ''\<newline>'')"
    by blast+
  then show ?thesis
    by (simp add: joinpath_examples)
qed

text \<open>
  \<^bold>\<open>C8.\<close> No directory is replaced. A path that is a directory before the script runs is a directory after it, on every host, for every root and for either value of the flag. At such a path \<^verbatim>\<open>write_file\<close> leaves the node as it is; without the flag (in a tree, when the host refuses neither the \<^verbatim>\<open>mkdir\<close> of the parent nor the \<^verbatim>\<open>stat\<close> of the parent and of the path) it returns without an error, and with the flag it raises.
\<close>

theorem directories_survive:
  "(is_dir fs p \<longrightarrow> is_dir (snd (run_script h root ov fs)) p) \<and>
   (is_dir fs p \<longrightarrow> snd (write_file h p c ov fs) p = fs p) \<and>
   (is_dir fs p \<and> wf_fs fs \<and> mkdir_fault h (parent p) = None \<and>
    stat_fault h (parent p) = None \<and> stat_fault h p = None \<longrightarrow>
      write_file h p c False fs = (None, fs)) \<and>
   (is_dir fs p \<longrightarrow> fst (write_file h p c True fs) \<noteq> None)"
proof (intro conjI impI)
  assume "is_dir fs p"
  then show "is_dir (snd (run_script h root ov fs)) p"
    by (simp add: main_dirs)
next
  assume "is_dir fs p"
  then show "snd (write_file h p c ov fs) p = fs p"
    by (rule write_file_dir_kept)
next
  assume "is_dir fs p \<and> wf_fs fs \<and> mkdir_fault h (parent p) = None \<and>
    stat_fault h (parent p) = None \<and> stat_fault h p = None"
  then show "write_file h p c False fs = (None, fs)"
    by (intro write_file_skip) (auto simp: is_dir_Some)
next
  assume "is_dir fs p"
  then show "fst (write_file h p c True fs) \<noteq> None"
    by (rule write_file_dir_raises)
qed

text \<open>A directory at \<^verbatim>\<open>/README.md\<close>, the first target under the root \<^verbatim>\<open>/\<close>.\<close>

theorem directories_survive_witness:
  "is_dir (snd (run_script quiet_host [] True blocked_fs)) [''README.md''] \<and>
   is_dir (snd (run_script quiet_host [] False blocked_fs)) [''README.md''] \<and>
   write_file quiet_host [''README.md''] ''x'' False blocked_fs = (None, blocked_fs) \<and>
   fst (write_file quiet_host [''README.md''] ''x'' True blocked_fs) \<noteq> None"
proof -
  have d: "is_dir blocked_fs [''README.md'']"
    by (simp add: blocked_fs_def is_dir_def)
  have w: "wf_fs blocked_fs"
    by (auto simp: wf_fs_def blocked_fs_def is_dir_def parent_def)
  have f: "mkdir_fault quiet_host (parent [''README.md'']) = None"
    "stat_fault quiet_host (parent [''README.md'']) = None"
    "stat_fault quiet_host [''README.md''] = None"
    by (simp_all add: quiet_host_def)
  from directories_survive [of blocked_fs "[''README.md'']" quiet_host "[]" True "''x''"]
    directories_survive [of blocked_fs "[''README.md'']" quiet_host "[]" False "''x''"] d w f
  show ?thesis
    by blast
qed

text \<open>
  \<^bold>\<open>C10.\<close> No collision while the table is built. The keys of the insertions the module makes, in program order, are pairwise distinct; the dictionary built is the list of these insertions, so no insertion replaces a content; and the dictionary has as many entries as there are insertions.
\<close>

theorem no_construction_collisions:
  "distinct (map fst insertion_log) \<and> REPO_STRUCTURE = insertion_log \<and>
   length REPO_STRUCTURE = length insertion_log"
  using keys_distinct by (simp add: insertion_log_eq REPO_STRUCTURE_eq)

text \<open>There are 209 insertions and 209 entries.\<close>

theorem no_construction_collisions_witness:
  "length REPO_STRUCTURE = 209 \<and> length insertion_log = 209 \<and> distinct (map fst insertion_log)"
  using no_construction_collisions entries_length by (simp add: insertion_log_eq)

end
